theory Spec2Isabelle
  imports Main "HOL-Library.Char_ord" "HOL-Library.List_Lexorder"
begin

section \<open>proofstore: the storage backend of \<^verbatim>\<open>backend/core.py\<close>\<close>

text \<open>
  The backend keeps proof elements, their tags and typed links between elements in three
  SQLite tables and offers functions that validate their arguments and then run SQL
  statements on a connection. This theory embeds those functions.

  Conventions of the embedding.
  \<^item> A Python \<^verbatim>\<open>str\<close> is a \<^typ>\<open>string\<close>: a list of characters, each a code point
    below 256. The order on strings is the lexicographic order on code points, which is
    the order of SQLite's default (binary) collation on the stored UTF-8 text.
  \<^item> A raised exception is a value of type \<open>error\<close>; a repository function returns a
    pair of its outcome (\<open>Inl\<close> the exception, \<open>Inr\<close> the returned value) and the
    connection it leaves behind.
  \<^item> The results of \<^verbatim>\<open>now_utc_iso()\<close> and \<^verbatim>\<open>secure_uuid4_str()\<close> are inputs: a
    record \<open>env\<close> holds what the clock answers at its successive readings during a call
    and the identifier the generator would draw.
  \<^item> A connection has the database its statements read and write, and the database of
    the last commit. A statement that fails changes nothing by itself, and leaves what
    earlier statements of the open transaction wrote in place, as SQLite does.
\<close>

subsection \<open>Constants\<close>

definition ELEMENT_TYPES :: "string list" where
  "ELEMENT_TYPES =
     [''definition'', ''axiom'', ''postulate'', ''lemma'', ''proposition'', ''theorem'',
      ''corollary'', ''proof'', ''example'', ''counterexample'', ''remark'']"

definition FORMATS :: "string list" where
  "FORMATS = [''plain'', ''markdown'', ''html'', ''latex'']"

definition LINK_RELATIONS :: "string list" where
  "LINK_RELATIONS =
     [''proves'', ''uses'', ''implies'', ''equivalent_to'', ''example_of'',
      ''counterexample_to'', ''related'']"

definition STATEMENTS :: "string set" where
  "STATEMENTS =
     {''axiom'', ''postulate'', ''lemma'', ''proposition'', ''theorem'', ''corollary''}"

definition DERIVED_STATEMENTS :: "string set" where
  "DERIVED_STATEMENTS = {''lemma'', ''proposition'', ''theorem'', ''corollary''}"

definition STATEMENT_OR_DEF :: "string set" where
  "STATEMENT_OR_DEF = STATEMENTS \<union> {''definition''}"

definition STATEMENT_LIKE_FOR_EQ :: "string set" where
  "STATEMENT_LIKE_FOR_EQ =
     {''definition'', ''lemma'', ''proposition'', ''theorem'', ''corollary''}"

text \<open>The dictionary \<^verbatim>\<open>REL_RULES\<close>, as the list of its items in the source's order.\<close>

definition REL_RULES :: "(string \<times> string set \<times> string set) list" where
  "REL_RULES =
     [(''proves'', {''proof''}, DERIVED_STATEMENTS),
      (''uses'', STATEMENTS \<union> {''proof''}, STATEMENT_OR_DEF),
      (''example_of'', {''example''}, STATEMENT_LIKE_FOR_EQ),
      (''counterexample_to'', {''counterexample''}, STATEMENT_LIKE_FOR_EQ),
      (''equivalent_to'', STATEMENT_LIKE_FOR_EQ, STATEMENT_LIKE_FOR_EQ),
      (''implies'', STATEMENTS, STATEMENTS),
      (''related'', set ELEMENT_TYPES, set ELEMENT_TYPES)]"

subsection \<open>Strings\<close>

text \<open>
  \<^verbatim>\<open>str.isspace\<close> on the code points below 256: tab to carriage return, the four
  separators 28 to 31, the space, NEL (133) and the no-break space (160).
\<close>

definition isspace :: "char \<Rightarrow> bool" where
  "isspace ch =
     (let n = (of_char ch :: nat)
      in (9 \<le> n \<and> n \<le> 13) \<or> (28 \<le> n \<and> n \<le> 32) \<or> n = 133 \<or> n = 160)"

definition strip :: "string \<Rightarrow> string" where
  "strip s = rev (dropWhile isspace (rev (dropWhile isspace s)))"

text \<open>
  \<^verbatim>\<open>str.upper\<close> on the letters a to z. The source compares the result with
  \<^verbatim>\<open>"ASC"\<close> and \<^verbatim>\<open>"DESC"\<close> only, and no other code point below 256 has an
  upper case that is one letter among A to Z. SQLite's \<^verbatim>\<open>LIKE\<close> folds the case of
  the same letters.
\<close>

definition upper_char :: "char \<Rightarrow> char" where
  "upper_char ch =
     (let n = (of_char ch :: nat) in if 97 \<le> n \<and> n \<le> 122 then char_of (n - 32) else ch)"

definition upper :: "string \<Rightarrow> string" where
  "upper s = map upper_char s"

subsection \<open>Exceptions\<close>

text \<open>
  The constraint of the schema that a failed statement names in its
  \<^verbatim>\<open>sqlite3.IntegrityError\<close>.
\<close>

datatype constraint =
    CheckFailed string            \<comment> \<open>CHECK constraint failed, on the named column\<close>
  | UniqueElementId               \<comment> \<open>UNIQUE constraint failed: elements.id\<close>
  | UniqueTagPair                 \<comment> \<open>UNIQUE constraint failed: element_tags.element_id, element_tags.tag\<close>
  | UniqueLinkId                  \<comment> \<open>UNIQUE constraint failed: element_links.id\<close>
  | UniqueLinkTriple              \<comment> \<open>UNIQUE constraint failed: element_links.src_id, .dst_id, .rel\<close>
  | ForeignKeyFailed              \<comment> \<open>FOREIGN KEY constraint failed\<close>

text \<open>
  Every \<^verbatim>\<open>raise\<close> of the source is a \<^verbatim>\<open>ValueError\<close> told apart by its message;
  one constructor stands for each message.
\<close>

datatype error =
    InvalidEnumValue string string
      \<comment> \<open>ValueError "Invalid type|format|rel '...'": which enumeration, the value\<close>
  | EmptyField string             \<comment> \<open>ValueError "title is empty" or "body is empty"\<close>
  | EmptyTag                      \<comment> \<open>ValueError "tag is empty"\<close>
  | TagTooLong                    \<comment> \<open>ValueError "tag too long (max 128)"\<close>
  | SelfLink                      \<comment> \<open>ValueError "src_id and dst_id must differ"\<close>
  | EndpointNotFound string string
      \<comment> \<open>ValueError "src_id|dst_id not found: ...": the side, the id\<close>
  | IncompatibleRelation string string string
      \<comment> \<open>ValueError "rel '...' requires src|dst type in ..., got '...'"\<close>
  | InvalidArgument string        \<comment> \<open>ValueError on limit, offset, order_by, order_dir\<close>
  | KeyError string               \<comment> \<open>a key missing from \<^verbatim>\<open>REL_RULES\<close>\<close>
  | IntegrityError constraint     \<comment> \<open>sqlite3.IntegrityError\<close>
  | OperationalError string       \<comment> \<open>sqlite3.OperationalError: a statement SQLite cannot parse\<close>
  | OverflowError                 \<comment> \<open>"Python int too large to convert to SQLite INTEGER"\<close>

text \<open>
  The spec's name for the failure of the unique index on \<open>(src_id, dst_id, rel)\<close>.
\<close>

abbreviation DuplicateLink :: error where
  "DuplicateLink \<equiv> IntegrityError UniqueLinkTriple"

subsection \<open>The store\<close>

record element_row =
  el_id :: string
  el_type :: string
  el_format :: string
  el_title :: string
  el_body :: string
  el_created_at :: string
  el_updated_at :: string

record tag_row =
  tg_element_id :: string
  tg_tag :: string
  tg_created_at :: string

record link_row =
  lk_id :: string
  lk_src_id :: string
  lk_dst_id :: string
  lk_rel :: string
  lk_note :: string
  lk_created_at :: string
  lk_updated_at :: string

text \<open>The three tables, each the list of its rows in insertion order.\<close>

record database =
  elements :: "element_row list"
  element_tags :: "tag_row list"
  element_links :: "link_row list"

record conn =
  db :: database          \<comment> \<open>what the statements of this connection read and write\<close>
  committed :: database   \<comment> \<open>what the last \<^verbatim>\<open>conn.commit()\<close> made durable\<close>

record env =
  now_utc_iso :: "nat \<Rightarrow> string"   \<comment> \<open>the clock's answer at its n-th reading in a call\<close>
  secure_uuid4_str :: string        \<comment> \<open>the identifier the generator draws\<close>

text \<open>The environment of a nested call, made after the caller read the clock once.\<close>

definition later :: "env \<Rightarrow> env" where
  "later e = e\<lparr>now_utc_iso := (\<lambda>n. now_utc_iso e (Suc n))\<rparr>"

type_synonym 'a outcome = "(error + 'a) \<times> conn"

definition commit :: "conn \<Rightarrow> conn" where
  "commit c = c\<lparr>committed := db c\<rparr>"

text \<open>Running one mutating statement on the connection.\<close>

definition execute :: "(database \<Rightarrow> error + database) \<Rightarrow> conn \<Rightarrow> (error + unit) \<times> conn" where
  "execute stmt c =
     (case stmt (db c) of
        Inl e \<Rightarrow> (Inl e, c)
      | Inr d \<Rightarrow> (Inr (), c\<lparr>db := d\<rparr>))"

subsection \<open>The statements, with the constraints of \<^verbatim>\<open>init_db\<close>\<close>

text \<open>
  SQLite tests the CHECK constraints first, then the unique indexes (the one created
  last first, so the triple of a link before its id), then the foreign keys.
\<close>

definition has_element :: "database \<Rightarrow> string \<Rightarrow> bool" where
  "has_element d eid = (eid \<in> set (map el_id (elements d)))"

text \<open>\<^verbatim>\<open>INSERT INTO elements (id, type, format, title, body, created_at, updated_at)\<close>\<close>

definition sql_insert_element :: "element_row \<Rightarrow> database \<Rightarrow> error + database" where
  "sql_insert_element r d =
     (if el_type r \<notin> set ELEMENT_TYPES then Inl (IntegrityError (CheckFailed ''type''))
      else if el_format r \<notin> set FORMATS then Inl (IntegrityError (CheckFailed ''format''))
      else if has_element d (el_id r) then Inl (IntegrityError UniqueElementId)
      else Inr (d\<lparr>elements := elements d @ [r]\<rparr>))"

text \<open>
  \<^verbatim>\<open>UPDATE elements SET type = ?, format = ?, title = ?, body = ?, updated_at = ? WHERE id = ?\<close>
\<close>

definition sql_update_element ::
  "string \<Rightarrow> string \<Rightarrow> string \<Rightarrow> string \<Rightarrow> string \<Rightarrow> string \<Rightarrow> database \<Rightarrow> error + database" where
  "sql_update_element new_type new_format new_title new_body ts eid d =
     (if has_element d eid \<and> new_type \<notin> set ELEMENT_TYPES
        then Inl (IntegrityError (CheckFailed ''type''))
      else if has_element d eid \<and> new_format \<notin> set FORMATS
        then Inl (IntegrityError (CheckFailed ''format''))
      else Inr (d\<lparr>elements :=
             map (\<lambda>r. if el_id r = eid
                       then r\<lparr>el_type := new_type, el_format := new_format,
                              el_title := new_title, el_body := new_body,
                              el_updated_at := ts\<rparr>
                       else r) (elements d)\<rparr>))"

text \<open>\<^verbatim>\<open>DELETE FROM element_tags WHERE element_id = ?\<close>\<close>

definition sql_delete_tags :: "string \<Rightarrow> database \<Rightarrow> error + database" where
  "sql_delete_tags eid d =
     Inr (d\<lparr>element_tags := filter (\<lambda>r. tg_element_id r \<noteq> eid) (element_tags d)\<rparr>)"

definition tag_pair :: "tag_row \<Rightarrow> string \<times> string" where
  "tag_pair r = (tg_element_id r, tg_tag r)"

definition has_tag :: "database \<Rightarrow> string \<Rightarrow> string \<Rightarrow> bool" where
  "has_tag d eid t = ((eid, t) \<in> set (map tag_pair (element_tags d)))"

text \<open>\<^verbatim>\<open>INSERT INTO element_tags (element_id, tag, created_at)\<close>\<close>

definition sql_insert_tag :: "string \<Rightarrow> string \<Rightarrow> string \<Rightarrow> database \<Rightarrow> error + database" where
  "sql_insert_tag eid t ts d =
     (if has_tag d eid t then Inl (IntegrityError UniqueTagPair)
      else if \<not> has_element d eid then Inl (IntegrityError ForeignKeyFailed)
      else Inr (d\<lparr>element_tags :=
             element_tags d @ [\<lparr>tg_element_id = eid, tg_tag = t, tg_created_at = ts\<rparr>]\<rparr>))"

text \<open>
  \<^verbatim>\<open>INSERT OR IGNORE INTO element_tags\<close>: a pair already there is skipped (row count
  0); a missing element still fails.
\<close>

definition sql_insert_or_ignore_tag ::
  "string \<Rightarrow> string \<Rightarrow> string \<Rightarrow> database \<Rightarrow> error + (database \<times> nat)" where
  "sql_insert_or_ignore_tag eid t ts d =
     (if has_tag d eid t then Inr (d, 0)
      else if \<not> has_element d eid then Inl (IntegrityError ForeignKeyFailed)
      else Inr (d\<lparr>element_tags :=
             element_tags d @ [\<lparr>tg_element_id = eid, tg_tag = t, tg_created_at = ts\<rparr>]\<rparr>, 1))"

text \<open>\<^verbatim>\<open>DELETE FROM element_tags WHERE element_id = ? AND tag = ?\<close>, with its row count.\<close>

definition sql_delete_tag :: "string \<Rightarrow> string \<Rightarrow> database \<Rightarrow> database \<times> nat" where
  "sql_delete_tag eid t d =
     (d\<lparr>element_tags :=
          filter (\<lambda>r. \<not> (tg_element_id r = eid \<and> tg_tag r = t)) (element_tags d)\<rparr>,
      length (filter (\<lambda>r. tg_element_id r = eid \<and> tg_tag r = t) (element_tags d)))"

definition link_triple :: "link_row \<Rightarrow> string \<times> string \<times> string" where
  "link_triple l = (lk_src_id l, lk_dst_id l, lk_rel l)"

definition has_triple :: "link_row list \<Rightarrow> string \<Rightarrow> string \<Rightarrow> string \<Rightarrow> bool" where
  "has_triple ls s t r = ((s, t, r) \<in> set (map link_triple ls))"

text \<open>
  \<^verbatim>\<open>INSERT INTO element_links (id, src_id, dst_id, rel, note, created_at, updated_at)\<close>
\<close>

definition sql_insert_link :: "link_row \<Rightarrow> database \<Rightarrow> error + database" where
  "sql_insert_link l d =
     (if lk_rel l \<notin> set LINK_RELATIONS then Inl (IntegrityError (CheckFailed ''rel''))
      else if has_triple (element_links d) (lk_src_id l) (lk_dst_id l) (lk_rel l)
        then Inl (IntegrityError UniqueLinkTriple)
      else if lk_id l \<in> set (map lk_id (element_links d)) then Inl (IntegrityError UniqueLinkId)
      else if \<not> has_element d (lk_src_id l) \<or> \<not> has_element d (lk_dst_id l)
        then Inl (IntegrityError ForeignKeyFailed)
      else Inr (d\<lparr>element_links := element_links d @ [l]\<rparr>))"

text \<open>
  \<^verbatim>\<open>UPDATE element_links SET rel = ?, note = ?, updated_at = ? WHERE id = ?\<close>. The
  unique index compares the new triple of the updated row with the other rows.
\<close>

definition sql_update_link ::
  "string \<Rightarrow> string \<Rightarrow> string \<Rightarrow> string \<Rightarrow> database \<Rightarrow> error + database" where
  "sql_update_link new_rel new_note ts lid d =
     (case find (\<lambda>l. lk_id l = lid) (element_links d) of
        None \<Rightarrow> Inr d
      | Some old \<Rightarrow>
          if new_rel \<notin> set LINK_RELATIONS then Inl (IntegrityError (CheckFailed ''rel''))
          else if has_triple (filter (\<lambda>l. lk_id l \<noteq> lid) (element_links d))
                    (lk_src_id old) (lk_dst_id old) new_rel
            then Inl (IntegrityError UniqueLinkTriple)
          else Inr (d\<lparr>element_links :=
                 map (\<lambda>l. if lk_id l = lid
                           then l\<lparr>lk_rel := new_rel, lk_note := new_note, lk_updated_at := ts\<rparr>
                           else l) (element_links d)\<rparr>))"

text \<open>
  \<^verbatim>\<open>DELETE FROM elements WHERE id = ?\<close>, with its row count. The foreign keys are
  declared \<^verbatim>\<open>ON DELETE CASCADE\<close>: the tags of the element and the links that start
  or end at it go with it.
\<close>

definition sql_delete_element :: "string \<Rightarrow> database \<Rightarrow> database \<times> nat" where
  "sql_delete_element eid d =
     (\<lparr>elements = filter (\<lambda>r. el_id r \<noteq> eid) (elements d),
       element_tags = filter (\<lambda>r. tg_element_id r \<noteq> eid) (element_tags d),
       element_links = filter (\<lambda>l. lk_src_id l \<noteq> eid \<and> lk_dst_id l \<noteq> eid) (element_links d)\<rparr>,
      length (filter (\<lambda>r. el_id r = eid) (elements d)))"

text \<open>\<^verbatim>\<open>DELETE FROM element_links WHERE id = ?\<close>, with its row count.\<close>

definition sql_delete_link :: "string \<Rightarrow> database \<Rightarrow> database \<times> nat" where
  "sql_delete_link lid d =
     (d\<lparr>element_links := filter (\<lambda>l. lk_id l \<noteq> lid) (element_links d)\<rparr>,
      length (filter (\<lambda>l. lk_id l = lid) (element_links d)))"

subsection \<open>Validation helpers\<close>

definition validate_type :: "string \<Rightarrow> error + string" where
  "validate_type t =
     (if t \<notin> set ELEMENT_TYPES then Inl (InvalidEnumValue ''type'' t) else Inr t)"

definition validate_format :: "string \<Rightarrow> error + string" where
  "validate_format fmt =
     (if fmt \<notin> set FORMATS then Inl (InvalidEnumValue ''format'' fmt) else Inr fmt)"

definition validate_rel :: "string \<Rightarrow> error + string" where
  "validate_rel rel =
     (if rel \<notin> set LINK_RELATIONS then Inl (InvalidEnumValue ''rel'' rel) else Inr rel)"

text \<open>\<^verbatim>\<open>SELECT ... FROM elements WHERE id = ?\<close> with \<^verbatim>\<open>fetchone()\<close>.\<close>

definition fetch_element :: "conn \<Rightarrow> string \<Rightarrow> element_row option" where
  "fetch_element c element_id = find (\<lambda>r. el_id r = element_id) (elements (db c))"

definition fetch_type :: "conn \<Rightarrow> string \<Rightarrow> string option" where
  "fetch_type c element_id = map_option el_type (fetch_element c element_id)"

text \<open>Python's \<^verbatim>\<open>not x\<close> for an optional string: \<^verbatim>\<open>None\<close> and \<^verbatim>\<open>""\<close> are false.\<close>

definition falsy :: "string option \<Rightarrow> bool" where
  "falsy x = (x = None \<or> x = Some [])"

definition validate_link_semantics :: "conn \<Rightarrow> string \<Rightarrow> string \<Rightarrow> string \<Rightarrow> error + unit" where
  "validate_link_semantics c src_id dst_id rel0 =
     (case validate_rel rel0 of
        Inl e \<Rightarrow> Inl e
      | Inr rel \<Rightarrow>
          if src_id = dst_id then Inl SelfLink
          else
            let src_type = fetch_type c src_id;
                dst_type = fetch_type c dst_id
            in if falsy src_type then Inl (EndpointNotFound ''src_id'' src_id)
               else if falsy dst_type then Inl (EndpointNotFound ''dst_id'' dst_id)
               else
                 (case map_of REL_RULES rel of
                    None \<Rightarrow> Inl (KeyError rel)
                  | Some (allowed_src, allowed_dst) \<Rightarrow>
                      if the src_type \<notin> allowed_src
                        then Inl (IncompatibleRelation rel ''src'' (the src_type))
                      else if the dst_type \<notin> allowed_dst
                        then Inl (IncompatibleRelation rel ''dst'' (the dst_type))
                      else Inr ()))"

subsection \<open>Tag management\<close>

definition normalize_tag :: "string \<Rightarrow> error + string" where
  "normalize_tag tag =
     (let t = strip tag
      in if t = [] then Inl EmptyTag
         else if length t > 128 then Inl TagTooLong
         else Inr t)"

text \<open>The comprehension \<^verbatim>\<open>[_normalize_tag(t) for t in tags]\<close>: the first bad tag raises.\<close>

fun normalize_each :: "string list \<Rightarrow> error + string list" where
  "normalize_each [] = Inr []"
| "normalize_each (t # ts) =
     (case normalize_tag t of
        Inl e \<Rightarrow> Inl e
      | Inr n \<Rightarrow> (case normalize_each ts of Inl e \<Rightarrow> Inl e | Inr ns \<Rightarrow> Inr (n # ns)))"

text \<open>The loop that keeps the first occurrence of each tag.\<close>

fun first_seen :: "string list \<Rightarrow> string set \<Rightarrow> string list \<Rightarrow> string list" where
  "first_seen [] seen out = out"
| "first_seen (t # ts) seen out =
     (if t \<notin> seen then first_seen ts (insert t seen) (out @ [t]) else first_seen ts seen out)"

definition normalize_tags :: "string list \<Rightarrow> error + string list" where
  "normalize_tags tags =
     (case normalize_each tags of
        Inl e \<Rightarrow> Inl e
      | Inr norm \<Rightarrow> Inr (first_seen norm {} []))"

text \<open>\<^verbatim>\<open>SELECT tag FROM element_tags WHERE element_id = ? ORDER BY tag ASC\<close>\<close>

definition list_tags :: "conn \<Rightarrow> string \<Rightarrow> string list" where
  "list_tags c element_id =
     sort (map tg_tag (filter (\<lambda>r. tg_element_id r = element_id) (element_tags (db c))))"

fun add_tags_loop :: "string \<Rightarrow> string \<Rightarrow> string list \<Rightarrow> nat \<Rightarrow> conn \<Rightarrow> nat outcome" where
  "add_tags_loop element_id ts [] added c = (Inr added, c)"
| "add_tags_loop element_id ts (t # rest) added c =
     (case sql_insert_or_ignore_tag element_id t ts (db c) of
        Inl e \<Rightarrow> (Inl e, c)
      | Inr (d, n) \<Rightarrow> add_tags_loop element_id ts rest (added + n) (c\<lparr>db := d\<rparr>))"

definition add_tags :: "env \<Rightarrow> conn \<Rightarrow> string \<Rightarrow> string list \<Rightarrow> nat outcome" where
  "add_tags ev c element_id tags =
     (case normalize_tags tags of
        Inl e \<Rightarrow> (Inl e, c)
      | Inr norm \<Rightarrow>
          (case add_tags_loop element_id (now_utc_iso ev 0) norm 0 c of
             (Inl e, c1) \<Rightarrow> (Inl e, c1)
           | (Inr added, c1) \<Rightarrow> (Inr added, commit c1)))"

fun remove_tags_loop :: "string \<Rightarrow> string list \<Rightarrow> nat \<Rightarrow> conn \<Rightarrow> nat \<times> conn" where
  "remove_tags_loop element_id [] removed c = (removed, c)"
| "remove_tags_loop element_id (t # rest) removed c =
     (case sql_delete_tag element_id t (db c) of
        (d, n) \<Rightarrow> remove_tags_loop element_id rest (removed + n) (c\<lparr>db := d\<rparr>))"

definition remove_tags :: "conn \<Rightarrow> string \<Rightarrow> string list \<Rightarrow> nat outcome" where
  "remove_tags c element_id tags =
     (case normalize_tags tags of
        Inl e \<Rightarrow> (Inl e, c)
      | Inr norm \<Rightarrow>
          (case remove_tags_loop element_id norm 0 c of
             (removed, c1) \<Rightarrow> (Inr removed, commit c1)))"

fun insert_tags_loop :: "string \<Rightarrow> string \<Rightarrow> string list \<Rightarrow> conn \<Rightarrow> unit outcome" where
  "insert_tags_loop element_id ts [] c = (Inr (), c)"
| "insert_tags_loop element_id ts (t # rest) c =
     (case execute (sql_insert_tag element_id t ts) c of
        (Inl e, c1) \<Rightarrow> (Inl e, c1)
      | (Inr u, c1) \<Rightarrow> insert_tags_loop element_id ts rest c1)"

definition set_tags :: "env \<Rightarrow> conn \<Rightarrow> string \<Rightarrow> string list \<Rightarrow> unit outcome" where
  "set_tags ev c element_id tags =
     (case normalize_tags tags of
        Inl e \<Rightarrow> (Inl e, c)
      | Inr norm \<Rightarrow>
          (case execute (sql_delete_tags element_id) c of
             (Inl e, c1) \<Rightarrow> (Inl e, c1)
           | (Inr u, c1) \<Rightarrow>
               (case insert_tags_loop element_id (now_utc_iso ev 0) norm c1 of
                  (Inl e, c2) \<Rightarrow> (Inl e, c2)
                | (Inr v, c2) \<Rightarrow> (Inr (), commit c2))))"

definition clear_tags :: "conn \<Rightarrow> string \<Rightarrow> nat outcome" where
  "clear_tags c element_id =
     (case execute (sql_delete_tags element_id) c of
        (Inl e, c1) \<Rightarrow> (Inl e, c1)
      | (Inr u, c1) \<Rightarrow>
          (Inr (length (filter (\<lambda>r. tg_element_id r = element_id) (element_tags (db c)))),
           commit c1))"

subsection \<open>Element CRUD\<close>

text \<open>Python's \<^verbatim>\<open>x or y\<close> on strings: the empty string gives way to \<^verbatim>\<open>y\<close>.\<close>

definition py_or :: "string \<Rightarrow> string \<Rightarrow> string" where
  "py_or x y = (if x = [] then y else x)"

definition id_or_fresh :: "env \<Rightarrow> string option \<Rightarrow> string" where
  "id_or_fresh ev id_opt =
     (case id_opt of None \<Rightarrow> secure_uuid4_str ev | Some i \<Rightarrow> py_or i (secure_uuid4_str ev))"

definition create_element ::
  "env \<Rightarrow> conn \<Rightarrow> string \<Rightarrow> string \<Rightarrow> string \<Rightarrow> string \<Rightarrow> string list option \<Rightarrow> string option
     \<Rightarrow> string outcome" where
  "create_element ev c ty title body fmt tags id_opt =
     (case validate_type ty of
        Inl e \<Rightarrow> (Inl e, c)
      | Inr ty1 \<Rightarrow>
     (case validate_format fmt of
        Inl e \<Rightarrow> (Inl e, c)
      | Inr fmt1 \<Rightarrow>
          if strip title = [] then (Inl (EmptyField ''title''), c)
          else if strip body = [] then (Inl (EmptyField ''body''), c)
          else
            let element_id = id_or_fresh ev id_opt;
                ts = now_utc_iso ev 0
            in (case execute (sql_insert_element
                       \<lparr>el_id = element_id, el_type = ty, el_format = fmt, el_title = title,
                        el_body = body, el_created_at = ts, el_updated_at = ts\<rparr>) c of
                  (Inl e, c1) \<Rightarrow> (Inl e, c1)
                | (Inr u, c1) \<Rightarrow>
                    (case tags of
                       None \<Rightarrow> (Inr element_id, commit c1)
                     | Some tg \<Rightarrow>
                         (case set_tags (later ev) c1 element_id tg of
                            (Inl e, c2) \<Rightarrow> (Inl e, c2)
                          | (Inr v, c2) \<Rightarrow> (Inr element_id, commit c2))))))"

text \<open>
  The dictionary of an element: its row, and its tags when \<^verbatim>\<open>include_tags\<close> asked
  for them.
\<close>

type_synonym element_dict = "element_row \<times> string list option"

definition get_element :: "conn \<Rightarrow> string \<Rightarrow> bool \<Rightarrow> element_dict option" where
  "get_element c element_id include_tags =
     (case fetch_element c element_id of
        None \<Rightarrow> None
      | Some row \<Rightarrow> Some (row, if include_tags then Some (list_tags c element_id) else None))"

definition update_element ::
  "env \<Rightarrow> conn \<Rightarrow> string \<Rightarrow> string option \<Rightarrow> string option \<Rightarrow> string option \<Rightarrow> string option
     \<Rightarrow> string list option \<Rightarrow> bool outcome" where
  "update_element ev c element_id ty title body fmt tags =
     (case fetch_element c element_id of
        None \<Rightarrow> (Inr False, c)
      | Some existing \<Rightarrow>
     (case (case ty of Some t \<Rightarrow> validate_type t | None \<Rightarrow> Inr (el_type existing)) of
        Inl e \<Rightarrow> (Inl e, c)
      | Inr new_type \<Rightarrow>
          let new_title = (case title of Some t \<Rightarrow> t | None \<Rightarrow> el_title existing);
              new_body = (case body of Some b \<Rightarrow> b | None \<Rightarrow> el_body existing)
          in
     (case (case fmt of Some f \<Rightarrow> validate_format f | None \<Rightarrow> Inr (el_format existing)) of
        Inl e \<Rightarrow> (Inl e, c)
      | Inr new_format \<Rightarrow>
          if strip new_title = [] then (Inl (EmptyField ''title''), c)
          else if strip new_body = [] then (Inl (EmptyField ''body''), c)
          else
            (case execute (sql_update_element new_type new_format new_title new_body
                             (now_utc_iso ev 0) element_id) c of
               (Inl e, c1) \<Rightarrow> (Inl e, c1)
             | (Inr u, c1) \<Rightarrow>
                 (case tags of
                    None \<Rightarrow> (Inr True, commit c1)
                  | Some tg \<Rightarrow>
                      (case set_tags (later ev) c1 element_id tg of
                         (Inl e, c2) \<Rightarrow> (Inl e, c2)
                       | (Inr v, c2) \<Rightarrow> (Inr True, commit c2)))))))"

definition delete_element :: "conn \<Rightarrow> string \<Rightarrow> bool outcome" where
  "delete_element c element_id =
     (case sql_delete_element element_id (db c) of
        (d, n) \<Rightarrow> (Inr (n > 0), commit (c\<lparr>db := d\<rparr>)))"

subsection \<open>Link management\<close>

definition fetch_link :: "conn \<Rightarrow> string \<Rightarrow> link_row option" where
  "fetch_link c link_id = find (\<lambda>l. lk_id l = link_id) (element_links (db c))"

definition get_link :: "conn \<Rightarrow> string \<Rightarrow> link_row option" where
  "get_link c link_id = fetch_link c link_id"

definition create_link ::
  "env \<Rightarrow> conn \<Rightarrow> string \<Rightarrow> string \<Rightarrow> string \<Rightarrow> string \<Rightarrow> string option \<Rightarrow> string outcome" where
  "create_link ev c src_id dst_id rel note id_opt =
     (case validate_rel rel of
        Inl e \<Rightarrow> (Inl e, c)
      | Inr rel1 \<Rightarrow>
     (case validate_link_semantics c src_id dst_id rel of
        Inl e \<Rightarrow> (Inl e, c)
      | Inr u \<Rightarrow>
          let link_id = id_or_fresh ev id_opt;
              ts = now_utc_iso ev 0
          in (case execute (sql_insert_link
                     \<lparr>lk_id = link_id, lk_src_id = src_id, lk_dst_id = dst_id, lk_rel = rel,
                      lk_note = py_or note [], lk_created_at = ts, lk_updated_at = ts\<rparr>) c of
                (Inl e, c1) \<Rightarrow> (Inl e, c1)
              | (Inr v, c1) \<Rightarrow> (Inr link_id, commit c1))))"

definition update_link ::
  "env \<Rightarrow> conn \<Rightarrow> string \<Rightarrow> string option \<Rightarrow> string option \<Rightarrow> bool outcome" where
  "update_link ev c link_id rel note =
     (case fetch_link c link_id of
        None \<Rightarrow> (Inr False, c)
      | Some existing \<Rightarrow>
     (case (case rel of Some r \<Rightarrow> validate_rel r | None \<Rightarrow> Inr (lk_rel existing)) of
        Inl e \<Rightarrow> (Inl e, c)
      | Inr new_rel \<Rightarrow>
          let new_note = py_or (case note of Some n \<Rightarrow> n | None \<Rightarrow> lk_note existing) []
          in
     (case (if rel \<noteq> None
            then validate_link_semantics c (lk_src_id existing) (lk_dst_id existing) new_rel
            else Inr ()) of
        Inl e \<Rightarrow> (Inl e, c)
      | Inr u \<Rightarrow>
          (case execute (sql_update_link new_rel new_note (now_utc_iso ev 0) link_id) c of
             (Inl e, c1) \<Rightarrow> (Inl e, c1)
           | (Inr v, c1) \<Rightarrow> (Inr True, commit c1)))))"

definition delete_link :: "conn \<Rightarrow> string \<Rightarrow> bool outcome" where
  "delete_link c link_id =
     (case sql_delete_link link_id (db c) of
        (d, n) \<Rightarrow> (Inr (n > 0), commit (c\<lparr>db := d\<rparr>)))"

subsection \<open>Queries\<close>

text \<open>
  An integer of a \<^verbatim>\<open>LIMIT\<close> or \<^verbatim>\<open>OFFSET\<close> clause: written in the SQL text, or a
  \<^verbatim>\<open>?\<close> bound to a Python integer. Binding an integer outside the 64-bit range of
  SQLite's INTEGER raises \<^verbatim>\<open>OverflowError\<close>.
\<close>

datatype sql_int = Literal int | Param int

fun bind_int :: "sql_int \<Rightarrow> error + int" where
  "bind_int (Literal n) = Inr n"
| "bind_int (Param n) =
     (if - (2 ^ 63) \<le> n \<and> n \<le> 2 ^ 63 - 1 then Inr n else Inl OverflowError)"

fun bind_clause :: "sql_int option \<Rightarrow> error + int option" where
  "bind_clause None = Inr None"
| "bind_clause (Some x) = (case bind_int x of Inl e \<Rightarrow> Inl e | Inr n \<Rightarrow> Inr (Some n))"

text \<open>A negative \<^verbatim>\<open>LIMIT\<close> is no limit; a negative \<^verbatim>\<open>OFFSET\<close> skips nothing.\<close>

fun sql_limit :: "int option \<Rightarrow> 'a list \<Rightarrow> 'a list" where
  "sql_limit None rows = rows"
| "sql_limit (Some n) rows = (if n < 0 then rows else take (nat n) rows)"

fun sql_offset :: "int option \<Rightarrow> 'a list \<Rightarrow> 'a list" where
  "sql_offset None rows = rows"
| "sql_offset (Some k) rows = (if k < 0 then rows else drop (nat k) rows)"

text \<open>
  \<^verbatim>\<open>ORDER BY column ASC|DESC\<close>: rows with equal keys stay in table order (SQLite does
  not fix their order; its sorter keeps them so).
\<close>

definition order_rows :: "('a \<Rightarrow> string) \<Rightarrow> string \<Rightarrow> 'a list \<Rightarrow> 'a list" where
  "order_rows key dir rows =
     (if dir = ''DESC'' then rev (sort_key key (rev rows)) else sort_key key rows)"

text \<open>
  The tail of a \<^verbatim>\<open>SELECT\<close>: SQLite's grammar has \<^verbatim>\<open>OFFSET\<close> only after a
  \<^verbatim>\<open>LIMIT\<close>; the statement is parsed before its parameters are bound.
\<close>

definition limit_offset :: "sql_int option \<Rightarrow> sql_int option \<Rightarrow> 'a list \<Rightarrow> error + 'a list" where
  "limit_offset lim off rows =
     (if off \<noteq> None \<and> lim = None then Inl (OperationalError ''near OFFSET: syntax error'')
      else
        (case bind_clause lim of
           Inl e \<Rightarrow> Inl e
         | Inr l \<Rightarrow>
             (case bind_clause off of
                Inl e \<Rightarrow> Inl e
              | Inr k \<Rightarrow> Inr (sql_limit l (sql_offset k rows)))))"

text \<open>
  \<^verbatim>\<open>x LIKE pattern\<close>: \<^verbatim>\<open>%\<close> matches any run of characters, \<^verbatim>\<open>_\<close> any one
  character, a letter matches in either case.
\<close>

fun sql_like :: "string \<Rightarrow> string \<Rightarrow> bool" where
  "sql_like [] s = (s = [])"
| "sql_like (p # ps) [] = (p = CHR ''%'' \<and> sql_like ps [])"
| "sql_like (p # ps) (x # xs) =
     (if p = CHR ''%'' then sql_like ps (x # xs) \<or> sql_like (p # ps) xs
      else if p = CHR ''_'' then sql_like ps xs
      else upper_char p = upper_char x \<and> sql_like ps xs)"

datatype element_cond =
    TagIs string              \<comment> \<open>et.tag = ?\<close>
  | TypeIs string             \<comment> \<open>e.type = ?\<close>
  | FormatIs string           \<comment> \<open>e.format = ?\<close>
  | TitleOrBodyLike string    \<comment> \<open>(e.title LIKE ? OR e.body LIKE ?)\<close>

record element_select =
  es_join :: bool                      \<comment> \<open>JOIN element_tags et ON et.element_id = e.id\<close>
  es_where :: "element_cond list"      \<comment> \<open>the conditions joined by AND\<close>
  es_order_by :: string
  es_order_dir :: string
  es_limit :: "sql_int option"
  es_offset :: "sql_int option"

fun element_cond_holds :: "element_cond \<Rightarrow> element_row \<times> tag_row option \<Rightarrow> bool" where
  "element_cond_holds (TagIs t) (e, et) = (case et of None \<Rightarrow> False | Some r \<Rightarrow> tg_tag r = t)"
| "element_cond_holds (TypeIs t) (e, et) = (el_type e = t)"
| "element_cond_holds (FormatIs f) (e, et) = (el_format e = f)"
| "element_cond_holds (TitleOrBodyLike pat) (e, et) =
     (sql_like pat (el_title e) \<or> sql_like pat (el_body e))"

definition element_column :: "string \<Rightarrow> (element_row \<Rightarrow> string) option" where
  "element_column name =
     (if name = ''updated_at'' then Some el_updated_at
      else if name = ''created_at'' then Some el_created_at
      else if name = ''title'' then Some el_title
      else if name = ''type'' then Some el_type
      else if name = ''format'' then Some el_format
      else if name = ''id'' then Some el_id
      else if name = ''body'' then Some el_body
      else None)"

definition joined_rows :: "database \<Rightarrow> bool \<Rightarrow> (element_row \<times> tag_row option) list" where
  "joined_rows d join =
     (if join
      then concat (map (\<lambda>e. map (\<lambda>t. (e, Some t))
                              (filter (\<lambda>t. tg_element_id t = el_id e) (element_tags d)))
                       (elements d))
      else map (\<lambda>e. (e, None)) (elements d))"

definition run_element_select :: "database \<Rightarrow> element_select \<Rightarrow> error + element_row list" where
  "run_element_select d q =
     (case element_column (es_order_by q) of
        None \<Rightarrow> Inl (OperationalError ''no such column'')
      | Some key \<Rightarrow>
          limit_offset (es_limit q) (es_offset q)
            (order_rows key (es_order_dir q)
               (map fst (filter (\<lambda>p. list_all (\<lambda>cnd. element_cond_holds cnd p) (es_where q))
                           (joined_rows d (es_join q))))))"

text \<open>
  The block both listings end with: the checks of \<^verbatim>\<open>limit\<close> and \<^verbatim>\<open>offset\<close> and
  the clauses appended to the statement.
\<close>

definition paging :: "int option \<Rightarrow> int option \<Rightarrow> error + (sql_int option \<times> sql_int option)" where
  "paging limit offset =
     (case (case limit of
              None \<Rightarrow> Inr None
            | Some l \<Rightarrow> if l < 1 then Inl (InvalidArgument ''limit must be >= 1'')
                        else Inr (Some (Param l))) of
        Inl e \<Rightarrow> Inl e
      | Inr lim \<Rightarrow>
          (case offset of
             None \<Rightarrow> Inr (lim, None)
           | Some k \<Rightarrow>
               if k < 0 then Inl (InvalidArgument ''offset must be >= 0'')
               else Inr (if limit = None then Some (Literal (- 1)) else lim, Some (Param k))))"

text \<open>The \<^verbatim>\<open>WHERE\<close> conditions of \<^verbatim>\<open>list_elements\<close>, in the order it appends them.\<close>

definition element_conds ::
  "string option \<Rightarrow> string option \<Rightarrow> string option \<Rightarrow> string option \<Rightarrow> error + element_cond list" where
  "element_conds ty q tag fmt =
     (case (case tag of
              None \<Rightarrow> Inr []
            | Some t \<Rightarrow> (case normalize_tag t of Inl e \<Rightarrow> Inl e | Inr n \<Rightarrow> Inr [TagIs n])) of
        Inl e \<Rightarrow> Inl e
      | Inr tag_conds \<Rightarrow>
          Inr (tag_conds
               @ (case ty of None \<Rightarrow> [] | Some t \<Rightarrow> if t = [] then [] else [TypeIs t])
               @ (case fmt of None \<Rightarrow> [] | Some f \<Rightarrow> if f = [] then [] else [FormatIs f])
               @ (case q of None \<Rightarrow> [] | Some x \<Rightarrow>
                    if x = [] then [] else [TitleOrBodyLike (''%'' @ x @ ''%'')])))"

definition with_tags :: "conn \<Rightarrow> bool \<Rightarrow> element_row \<Rightarrow> element_dict" where
  "with_tags c include_tags r =
     (r, if include_tags then Some (list_tags c (el_id r)) else None)"

definition list_elements ::
  "conn \<Rightarrow> string option \<Rightarrow> string option \<Rightarrow> string option \<Rightarrow> string option \<Rightarrow> int option
     \<Rightarrow> int option \<Rightarrow> string \<Rightarrow> string \<Rightarrow> bool \<Rightarrow> error + element_dict list" where
  "list_elements c ty q tag fmt limit offset order_by order_dir include_tags =
     (case (case ty of None \<Rightarrow> Inr [] | Some t \<Rightarrow> validate_type t) of
        Inl e \<Rightarrow> Inl e
      | Inr ty1 \<Rightarrow>
     (case (case fmt of None \<Rightarrow> Inr [] | Some f \<Rightarrow> validate_format f) of
        Inl e \<Rightarrow> Inl e
      | Inr fmt1 \<Rightarrow>
          if order_by \<notin> {''updated_at'', ''created_at'', ''title'', ''type'', ''format''}
            then Inl (InvalidArgument ''order_by'')
          else if upper order_dir \<notin> {''ASC'', ''DESC''}
            then Inl (InvalidArgument ''order_dir must be ASC or DESC'')
          else
     (case element_conds ty q tag fmt of
        Inl e \<Rightarrow> Inl e
      | Inr conds \<Rightarrow>
     (case paging limit offset of
        Inl e \<Rightarrow> Inl e
      | Inr (lim, off) \<Rightarrow>
          (case run_element_select (db c)
                  \<lparr>es_join = (tag \<noteq> None), es_where = conds, es_order_by = order_by,
                   es_order_dir = upper order_dir, es_limit = lim, es_offset = off\<rparr> of
             Inl e \<Rightarrow> Inl e
           | Inr rows \<Rightarrow> Inr (map (with_tags c include_tags) rows))))))"

datatype link_cond =
    SrcIs string    \<comment> \<open>src_id = ?\<close>
  | DstIs string    \<comment> \<open>dst_id = ?\<close>
  | RelIs string    \<comment> \<open>rel = ?\<close>

record link_select =
  ls_where :: "link_cond list"
  ls_order_by :: string
  ls_order_dir :: string
  ls_limit :: "sql_int option"
  ls_offset :: "sql_int option"

fun link_cond_holds :: "link_cond \<Rightarrow> link_row \<Rightarrow> bool" where
  "link_cond_holds (SrcIs s) l = (lk_src_id l = s)"
| "link_cond_holds (DstIs t) l = (lk_dst_id l = t)"
| "link_cond_holds (RelIs r) l = (lk_rel l = r)"

definition link_column :: "string \<Rightarrow> (link_row \<Rightarrow> string) option" where
  "link_column name =
     (if name = ''updated_at'' then Some lk_updated_at
      else if name = ''created_at'' then Some lk_created_at
      else if name = ''rel'' then Some lk_rel
      else if name = ''id'' then Some lk_id
      else if name = ''src_id'' then Some lk_src_id
      else if name = ''dst_id'' then Some lk_dst_id
      else if name = ''note'' then Some lk_note
      else None)"

definition run_link_select :: "database \<Rightarrow> link_select \<Rightarrow> error + link_row list" where
  "run_link_select d q =
     (case link_column (ls_order_by q) of
        None \<Rightarrow> Inl (OperationalError ''no such column'')
      | Some key \<Rightarrow>
          limit_offset (ls_limit q) (ls_offset q)
            (order_rows key (ls_order_dir q)
               (filter (\<lambda>l. list_all (\<lambda>cnd. link_cond_holds cnd l) (ls_where q))
                  (element_links d))))"

definition link_conds ::
  "string option \<Rightarrow> string option \<Rightarrow> string option \<Rightarrow> error + link_cond list" where
  "link_conds src_id dst_id rel =
     (case (case rel of
              None \<Rightarrow> Inr []
            | Some r \<Rightarrow> if r = [] then Inr []
                        else (case validate_rel r of Inl e \<Rightarrow> Inl e | Inr r1 \<Rightarrow> Inr [RelIs r])) of
        Inl e \<Rightarrow> Inl e
      | Inr rel_conds \<Rightarrow>
          Inr ((case src_id of None \<Rightarrow> [] | Some s \<Rightarrow> if s = [] then [] else [SrcIs s])
               @ (case dst_id of None \<Rightarrow> [] | Some t \<Rightarrow> if t = [] then [] else [DstIs t])
               @ rel_conds))"

definition list_links ::
  "conn \<Rightarrow> string option \<Rightarrow> string option \<Rightarrow> string option \<Rightarrow> int option \<Rightarrow> int option
     \<Rightarrow> string \<Rightarrow> string \<Rightarrow> error + link_row list" where
  "list_links c src_id dst_id rel limit offset order_by order_dir =
     (if order_by \<notin> {''updated_at'', ''created_at'', ''rel''}
        then Inl (InvalidArgument ''order_by'')
      else if upper order_dir \<notin> {''ASC'', ''DESC''}
        then Inl (InvalidArgument ''order_dir must be ASC or DESC'')
      else
        (case link_conds src_id dst_id rel of
           Inl e \<Rightarrow> Inl e
         | Inr conds \<Rightarrow>
             (case paging limit offset of
                Inl e \<Rightarrow> Inl e
              | Inr (lim, off) \<Rightarrow>
                  run_link_select (db c)
                    \<lparr>ls_where = conds, ls_order_by = order_by, ls_order_dir = upper order_dir,
                     ls_limit = lim, ls_offset = off\<rparr>)))"

subsection \<open>Names for what the proofs speak of\<close>

text \<open>A tag that \<^verbatim>\<open>_normalize_tag\<close> accepts.\<close>

definition valid_tag :: "string \<Rightarrow> bool" where
  "valid_tag t = (strip t \<noteq> [] \<and> length (strip t) \<le> 128)"

text \<open>The rows that the loop of \<^verbatim>\<open>set_tags\<close> inserts for the normalized tags.\<close>

definition new_tag_rows :: "string \<Rightarrow> string \<Rightarrow> string list \<Rightarrow> tag_row list" where
  "new_tag_rows eid ts ns = map (\<lambda>t. \<lparr>tg_element_id = eid, tg_tag = t, tg_created_at = ts\<rparr>) ns"

text \<open>
  The row that the \<^verbatim>\<open>UPDATE\<close> of \<^verbatim>\<open>update_element\<close> writes over a row \<open>r\<close>: each
  supplied field, the prior value of \<open>existing\<close> for each field not supplied, and the
  time of the call.
\<close>

definition merged_row ::
  "env \<Rightarrow> element_row \<Rightarrow> string option \<Rightarrow> string option \<Rightarrow> string option \<Rightarrow> string option
     \<Rightarrow> element_row \<Rightarrow> element_row" where
  "merged_row ev existing oty otitle obody ofmt r =
     r\<lparr>el_type := (case oty of Some t \<Rightarrow> t | None \<Rightarrow> el_type existing),
       el_format := (case ofmt of Some f \<Rightarrow> f | None \<Rightarrow> el_format existing),
       el_title := (case otitle of Some t \<Rightarrow> t | None \<Rightarrow> el_title existing),
       el_body := (case obody of Some b \<Rightarrow> b | None \<Rightarrow> el_body existing),
       el_updated_at := now_utc_iso ev 0\<rparr>"

text \<open>
  The row that the \<^verbatim>\<open>UPDATE\<close> of \<^verbatim>\<open>update_link\<close> writes over the link \<open>l\<close>.
\<close>

definition updated_link :: "env \<Rightarrow> string option \<Rightarrow> string option \<Rightarrow> link_row \<Rightarrow> link_row" where
  "updated_link ev orel onote l =
     l\<lparr>lk_rel := (case orel of Some r \<Rightarrow> r | None \<Rightarrow> lk_rel l),
       lk_note := (case onote of Some n \<Rightarrow> n | None \<Rightarrow> lk_note l),
       lk_updated_at := now_utc_iso ev 0\<rparr>"

subsection \<open>A small store\<close>

text \<open>
  A store with a proof, two theorems and a remark; the proof has one tag and proves the
  first theorem. The examples below run on it.
\<close>

definition env0 :: env where
  "env0 = \<lparr>now_utc_iso = (\<lambda>n. ''2024-05-02T09:30:00+00:00''), secure_uuid4_str = ''u-77''\<rparr>"

definition demo_db :: database where
  "demo_db =
     \<lparr>elements =
        [\<lparr>el_id = ''p1'', el_type = ''proof'', el_format = ''plain'',
          el_title = ''Proof of T'', el_body = ''By induction.'',
          el_created_at = ''2024-05-01T08:00:00+00:00'',
          el_updated_at = ''2024-05-01T08:00:00+00:00''\<rparr>,
         \<lparr>el_id = ''t1'', el_type = ''theorem'', el_format = ''latex'',
          el_title = ''T'', el_body = ''x = x'',
          el_created_at = ''2024-05-01T08:01:00+00:00'',
          el_updated_at = ''2024-05-01T08:02:00+00:00''\<rparr>,
         \<lparr>el_id = ''t2'', el_type = ''theorem'', el_format = ''plain'',
          el_title = ''T2'', el_body = ''y = y'',
          el_created_at = ''2024-05-01T08:02:30+00:00'',
          el_updated_at = ''2024-05-01T08:02:30+00:00''\<rparr>,
         \<lparr>el_id = ''r1'', el_type = ''remark'', el_format = ''markdown'',
          el_title = ''Note'', el_body = ''See T.'',
          el_created_at = ''2024-05-01T08:03:00+00:00'',
          el_updated_at = ''2024-05-01T08:03:00+00:00''\<rparr>],
      element_tags =
        [\<lparr>tg_element_id = ''p1'', tg_tag = ''induction'',
          tg_created_at = ''2024-05-01T08:00:00+00:00''\<rparr>],
      element_links =
        [\<lparr>lk_id = ''l1'', lk_src_id = ''p1'', lk_dst_id = ''t1'', lk_rel = ''proves'',
          lk_note = ''main'', lk_created_at = ''2024-05-01T08:04:00+00:00'',
          lk_updated_at = ''2024-05-01T08:04:00+00:00''\<rparr>]\<rparr>"

definition demo_conn :: conn where
  "demo_conn = \<lparr>db = demo_db, committed = demo_db\<rparr>"

subsection \<open>What the schema and the validation keep true of a store\<close>

text \<open>
  The constraints of \<^verbatim>\<open>init_db\<close> (primary keys, unique index, CHECK constraints,
  foreign keys) and the non-empty titles and bodies that \<^verbatim>\<open>create_element\<close> and
  \<^verbatim>\<open>update_element\<close> insist on.
\<close>

definition elements_ok :: "database \<Rightarrow> bool" where
  "elements_ok d =
     (distinct (map el_id (elements d)) \<and>
      (\<forall>e \<in> set (elements d).
         el_type e \<in> set ELEMENT_TYPES \<and> el_format e \<in> set FORMATS \<and>
         strip (el_title e) \<noteq> [] \<and> strip (el_body e) \<noteq> []))"

definition tags_ok :: "database \<Rightarrow> bool" where
  "tags_ok d =
     (distinct (map tag_pair (element_tags d)) \<and>
      (\<forall>r \<in> set (element_tags d). has_element d (tg_element_id r)))"

definition links_ok :: "database \<Rightarrow> bool" where
  "links_ok d =
     (distinct (map lk_id (element_links d)) \<and>
      distinct (map link_triple (element_links d)) \<and>
      (\<forall>l \<in> set (element_links d).
         lk_rel l \<in> set LINK_RELATIONS \<and>
         has_element d (lk_src_id l) \<and> has_element d (lk_dst_id l)))"

definition store_inv :: "database \<Rightarrow> bool" where
  "store_inv d = (elements_ok d \<and> tags_ok d \<and> links_ok d)"

definition conn_inv :: "conn \<Rightarrow> bool" where
  "conn_inv c = (store_inv (db c) \<and> store_inv (committed c))"

definition empty_db :: database where
  "empty_db = \<lparr>elements = [], element_tags = [], element_links = []\<rparr>"

text \<open>
  The connections a program can hold: one opened on a new database, one reopened on
  what was committed (closing a connection drops its open transaction), and what any
  call of the repository leaves behind, whether it returned or raised.
\<close>

inductive reachable :: "conn \<Rightarrow> bool" where
  opened: "reachable \<lparr>db = empty_db, committed = empty_db\<rparr>"
| reopened: "reachable c \<Longrightarrow> reachable \<lparr>db = committed c, committed = committed c\<rparr>"
| by_create_element:
    "reachable c \<Longrightarrow> reachable (snd (create_element ev c ty title body fmt tags id_opt))"
| by_update_element:
    "reachable c \<Longrightarrow> reachable (snd (update_element ev c element_id oty otitle obody ofmt tags))"
| by_delete_element: "reachable c \<Longrightarrow> reachable (snd (delete_element c element_id))"
| by_add_tags: "reachable c \<Longrightarrow> reachable (snd (add_tags ev c element_id tgs))"
| by_remove_tags: "reachable c \<Longrightarrow> reachable (snd (remove_tags c element_id tgs))"
| by_clear_tags: "reachable c \<Longrightarrow> reachable (snd (clear_tags c element_id))"
| by_set_tags: "reachable c \<Longrightarrow> reachable (snd (set_tags ev c element_id tgs))"
| by_create_link:
    "reachable c \<Longrightarrow> reachable (snd (create_link ev c src_id dst_id rel note id_opt))"
| by_update_link: "reachable c \<Longrightarrow> reachable (snd (update_link ev c link_id orel onote))"
| by_delete_link: "reachable c \<Longrightarrow> reachable (snd (delete_link c link_id))"

subsection \<open>The relation-semantics table of the specification\<close>

text \<open>
  The table as the specification prints it, row by row, to compare \<^verbatim>\<open>REL_RULES\<close>
  with; "any element type" is the enumeration of the eleven types.
\<close>

definition spec_relation_table :: "(string \<times> string set \<times> string set) list" where
  "spec_relation_table =
     [(''proves'',
         {''proof''},
         {''lemma'', ''proposition'', ''theorem'', ''corollary''}),
      (''uses'',
         {''axiom'', ''postulate'', ''lemma'', ''proposition'', ''theorem'', ''corollary'',
          ''proof''},
         {''axiom'', ''postulate'', ''lemma'', ''proposition'', ''theorem'', ''corollary'',
          ''definition''}),
      (''implies'',
         {''axiom'', ''postulate'', ''lemma'', ''proposition'', ''theorem'', ''corollary''},
         {''axiom'', ''postulate'', ''lemma'', ''proposition'', ''theorem'', ''corollary''}),
      (''equivalent_to'',
         {''definition'', ''lemma'', ''proposition'', ''theorem'', ''corollary''},
         {''definition'', ''lemma'', ''proposition'', ''theorem'', ''corollary''}),
      (''example_of'',
         {''example''},
         {''definition'', ''lemma'', ''proposition'', ''theorem'', ''corollary''}),
      (''counterexample_to'',
         {''counterexample''},
         {''definition'', ''lemma'', ''proposition'', ''theorem'', ''corollary''}),
      (''related'',
         {''definition'', ''axiom'', ''postulate'', ''lemma'', ''proposition'', ''theorem'',
          ''corollary'', ''proof'', ''example'', ''counterexample'', ''remark''},
         {''definition'', ''axiom'', ''postulate'', ''lemma'', ''proposition'', ''theorem'',
          ''corollary'', ''proof'', ''example'', ''counterexample'', ''remark''})]"

definition spec_allows :: "string \<Rightarrow> string \<Rightarrow> string \<Rightarrow> bool" where
  "spec_allows rel src_type dst_type =
     (case map_of spec_relation_table rel of
        None \<Rightarrow> False
      | Some (allowed_src, allowed_dst) \<Rightarrow> src_type \<in> allowed_src \<and> dst_type \<in> allowed_dst)"

text \<open>
  The small store after the theorem \<open>t1\<close> has been turned into a remark: its link
  \<open>l1\<close> still says that \<open>p1\<close> proves \<open>t1\<close>, since \<^verbatim>\<open>update_element\<close> does not look
  at the links of the element.
\<close>

definition drifted_conn :: conn where
  "drifted_conn = snd (update_element env0 demo_conn ''t1'' (Some ''remark'') None None None None)"

section \<open>Properties\<close>

subsection \<open>Evaluation of the constants\<close>

lemma in_ELEMENT_TYPES:
  "t \<in> set ELEMENT_TYPES \<longleftrightarrow>
     t = ''definition'' \<or> t = ''axiom'' \<or> t = ''postulate'' \<or> t = ''lemma'' \<or>
     t = ''proposition'' \<or> t = ''theorem'' \<or> t = ''corollary'' \<or> t = ''proof'' \<or>
     t = ''example'' \<or> t = ''counterexample'' \<or> t = ''remark''"
  by (simp add: ELEMENT_TYPES_def)

lemma in_FORMATS:
  "f \<in> set FORMATS \<longleftrightarrow> f = ''plain'' \<or> f = ''markdown'' \<or> f = ''html'' \<or> f = ''latex''"
  by (simp add: FORMATS_def)

lemma in_LINK_RELATIONS:
  "r \<in> set LINK_RELATIONS \<longleftrightarrow>
     r = ''proves'' \<or> r = ''uses'' \<or> r = ''implies'' \<or> r = ''equivalent_to'' \<or>
     r = ''example_of'' \<or> r = ''counterexample_to'' \<or> r = ''related''"
  by (simp add: LINK_RELATIONS_def)

lemma fetch_element_None: "fetch_element c eid = None \<longleftrightarrow> \<not> has_element (db c) eid"
  by (auto simp: fetch_element_def has_element_def find_None_iff)

lemma fetch_link_None:
  "fetch_link c lid = None \<longleftrightarrow> lid \<notin> set (map lk_id (element_links (db c)))"
  by (auto simp: fetch_link_def find_None_iff)

subsection \<open>Every statement and every call keeps the store well-formed\<close>

lemma has_element_same_ids:
  "map el_id (elements d') = map el_id (elements d) \<Longrightarrow> has_element d' = has_element d"
  by (simp add: has_element_def fun_eq_iff)

lemma sql_insert_element_inv:
  assumes "sql_insert_element r d = Inr d'" "store_inv d"
    "strip (el_title r) \<noteq> []" "strip (el_body r) \<noteq> []"
  shows "store_inv d'"
  using assms
  by (auto simp: sql_insert_element_def store_inv_def elements_ok_def tags_ok_def links_ok_def
      has_element_def split: if_splits)

lemma sql_update_element_inv:
  assumes "sql_update_element ty fmt title body ts eid d = Inr d'" "store_inv d"
    "strip title \<noteq> []" "strip body \<noteq> []"
  shows "store_inv d'"
proof -
  let ?f = "\<lambda>r. if el_id r = eid
                       then r\<lparr>el_type := ty, el_format := fmt,
                              el_title := title, el_body := body,
                              el_updated_at := ts\<rparr>
                       else r"
  have d': "d' = d\<lparr>elements := map ?f (elements d)\<rparr>"
    and chk: "has_element d eid \<Longrightarrow> ty \<in> set ELEMENT_TYPES \<and> fmt \<in> set FORMATS"
    using assms(1) by (auto simp: sql_update_element_def split: if_splits)
  have ids: "map el_id (elements d') = map el_id (elements d)"
    by (simp add: d' comp_def)
  have he: "has_element d' = has_element d"
    using ids by (rule has_element_same_ids)
  have ok: "elements_ok d"
    using assms(2) by (simp add: store_inv_def)
  have "distinct (map el_id (elements d'))"
    using ok by (simp add: ids elements_ok_def)
  moreover have "el_type e' \<in> set ELEMENT_TYPES \<and> el_format e' \<in> set FORMATS \<and>
         strip (el_title e') \<noteq> [] \<and> strip (el_body e') \<noteq> []"
    if "e' \<in> set (elements d')" for e'
  proof -
    from that obtain e where e: "e \<in> set (elements d)" "e' = ?f e"
      by (auto simp: d')
    show ?thesis
    proof (cases "el_id e = eid")
      case True
      then have "has_element d eid"
        using e(1) by (auto simp: has_element_def)
      with chk True e(2) assms(3,4) show ?thesis by simp
    next
      case False
      with e ok show ?thesis by (simp add: elements_ok_def)
    qed
  qed
  ultimately have "elements_ok d'"
    unfolding elements_ok_def by blast
  moreover have "tags_ok d'" "links_ok d'"
    using assms(2) he unfolding store_inv_def tags_ok_def links_ok_def
    by (auto simp: d')
  ultimately show ?thesis by (simp add: store_inv_def)
qed

lemma sql_delete_tags_inv:
  "sql_delete_tags eid d = Inr d' \<Longrightarrow> store_inv d \<Longrightarrow> store_inv d'"
  by (auto simp: sql_delete_tags_def store_inv_def elements_ok_def tags_ok_def links_ok_def
      has_element_def distinct_map_filter)

lemma sql_insert_tag_inv:
  "sql_insert_tag eid t ts d = Inr d' \<Longrightarrow> store_inv d \<Longrightarrow> store_inv d'"
  by (auto simp: sql_insert_tag_def store_inv_def elements_ok_def tags_ok_def links_ok_def
      has_element_def has_tag_def tag_pair_def split: if_splits)

lemma sql_insert_or_ignore_tag_inv:
  "sql_insert_or_ignore_tag eid t ts d = Inr (d', n) \<Longrightarrow> store_inv d \<Longrightarrow> store_inv d'"
  by (auto simp: sql_insert_or_ignore_tag_def store_inv_def elements_ok_def tags_ok_def links_ok_def
      has_element_def has_tag_def tag_pair_def split: if_splits)

lemma sql_delete_tag_inv:
  "sql_delete_tag eid t d = (d', n) \<Longrightarrow> store_inv d \<Longrightarrow> store_inv d'"
  by (auto simp: sql_delete_tag_def store_inv_def elements_ok_def tags_ok_def links_ok_def
      has_element_def distinct_map_filter)

lemma sql_insert_link_inv:
  assumes "sql_insert_link l d = Inr d'" "store_inv d"
  shows "store_inv d'"
proof -
  have d': "d' = d\<lparr>element_links := element_links d @ [l]\<rparr>"
    and chk: "lk_rel l \<in> set LINK_RELATIONS"
      "link_triple l \<notin> set (map link_triple (element_links d))"
      "lk_id l \<notin> set (map lk_id (element_links d))"
      "has_element d (lk_src_id l)" "has_element d (lk_dst_id l)"
    using assms(1)
    by (auto simp: sql_insert_link_def has_triple_def link_triple_def split: if_splits)
  have he: "has_element d' = has_element d"
    by (simp add: d' has_element_def fun_eq_iff)
  have "links_ok d'"
    using assms(2) chk unfolding store_inv_def links_ok_def he
    by (auto simp: d')
  moreover have "elements_ok d'" "tags_ok d'"
    using assms(2) unfolding store_inv_def elements_ok_def tags_ok_def he
    by (auto simp: d')
  ultimately show ?thesis by (simp add: store_inv_def)
qed

lemma sql_delete_link_inv:
  "sql_delete_link lid d = (d', n) \<Longrightarrow> store_inv d \<Longrightarrow> store_inv d'"
  by (auto simp: sql_delete_link_def store_inv_def elements_ok_def tags_ok_def links_ok_def
      has_element_def distinct_map_filter)

lemma sql_delete_element_inv:
  assumes "sql_delete_element eid d = (d', n)" "store_inv d"
  shows "store_inv d'"
proof -
  have d': "d' = \<lparr>elements = filter (\<lambda>r. el_id r \<noteq> eid) (elements d),
       element_tags = filter (\<lambda>r. tg_element_id r \<noteq> eid) (element_tags d),
       element_links = filter (\<lambda>l. lk_src_id l \<noteq> eid \<and> lk_dst_id l \<noteq> eid) (element_links d)\<rparr>"
    using assms(1) by (auto simp: sql_delete_element_def)
  have he: "has_element d' x \<longleftrightarrow> has_element d x \<and> x \<noteq> eid" for x
    by (auto simp: d' has_element_def)
  have "elements_ok d'"
    using assms(2) by (auto simp: d' store_inv_def elements_ok_def distinct_map_filter)
  moreover have "tags_ok d'"
    using assms(2) unfolding store_inv_def tags_ok_def he
    by (auto simp: d' distinct_map_filter)
  moreover have "links_ok d'"
    using assms(2) unfolding store_inv_def links_ok_def he
    by (auto simp: d' distinct_map_filter)
  ultimately show ?thesis by (simp add: store_inv_def)
qed

lemma execute_inv:
  assumes "execute stmt c = (r, c')" "conn_inv c"
    "\<And>d d'. stmt d = Inr d' \<Longrightarrow> store_inv d \<Longrightarrow> store_inv d'"
  shows "conn_inv c'"
  using assms by (auto simp: execute_def conn_inv_def split: sum.splits)

lemma commit_inv: "conn_inv c \<Longrightarrow> conn_inv (commit c)"
  by (simp add: conn_inv_def commit_def)

lemma insert_tags_loop_inv:
  "insert_tags_loop eid ts tgs c = (r, c') \<Longrightarrow> conn_inv c \<Longrightarrow> conn_inv c'"
proof (induction tgs arbitrary: c)
  case Nil then show ?case by simp
next
  case (Cons t tgs)
  obtain r1 c1 where e: "execute (sql_insert_tag eid t ts) c = (r1, c1)"
    by (cases "execute (sql_insert_tag eid t ts) c")
  then have 1: "conn_inv c1"
    using Cons.prems(2) sql_insert_tag_inv by (rule execute_inv)
  show ?case
  proof (cases r1)
    case (Inl x)
    with Cons.prems(1) e 1 show ?thesis by simp
  next
    case (Inr u)
    with Cons.prems(1) e have "insert_tags_loop eid ts tgs c1 = (r, c')" by simp
    with 1 show ?thesis by (rule Cons.IH[rotated])
  qed
qed

lemma set_tags_inv:
  assumes "set_tags ev c eid tgs = (r, c')" "conn_inv c"
  shows "conn_inv c'"
proof (cases "normalize_tags tgs")
  case (Inl e)
  with assms show ?thesis by (simp add: set_tags_def)
next
  case (Inr norm)
  obtain r1 c1 where e: "execute (sql_delete_tags eid) c = (r1, c1)"
    by (cases "execute (sql_delete_tags eid) c")
  then have 1: "conn_inv c1"
    using assms(2) sql_delete_tags_inv by (rule execute_inv)
  obtain r2 c2 where l: "insert_tags_loop eid (now_utc_iso ev 0) norm c1 = (r2, c2)"
    by (cases "insert_tags_loop eid (now_utc_iso ev 0) norm c1")
  then have 2: "conn_inv c2"
    using 1 by (rule insert_tags_loop_inv)
  show ?thesis
    using assms(1) Inr e l 1 2 commit_inv[OF 2]
    by (auto simp: set_tags_def split: sum.splits)
qed

lemma map_update_absent:
  "a \<notin> g ` set xs \<Longrightarrow> map (\<lambda>l. if g l = a then h l else l) xs = xs"
  by (induction xs) auto

lemma filter_other_absent:
  "a \<notin> g ` set xs \<Longrightarrow> filter (\<lambda>l. g l \<noteq> a) xs = xs"
  by (induction xs) auto

lemma sql_update_link_inv:
  assumes "sql_update_link new_rel new_note ts lid d = Inr d'" "store_inv d"
  shows "store_inv d'"
proof (cases "find (\<lambda>l. lk_id l = lid) (element_links d)")
  case None
  with assms show ?thesis by (simp add: sql_update_link_def)
next
  case (Some old)
  let ?f = "\<lambda>l. if lk_id l = lid
                  then l\<lparr>lk_rel := new_rel, lk_note := new_note, lk_updated_at := ts\<rparr>
                  else l"
  have d': "d' = d\<lparr>element_links := map ?f (element_links d)\<rparr>"
    and rel: "new_rel \<in> set LINK_RELATIONS"
    and new: "\<not> has_triple (filter (\<lambda>l. lk_id l \<noteq> lid) (element_links d))
                 (lk_src_id old) (lk_dst_id old) new_rel"
    using assms(1) Some by (auto simp: sql_update_link_def split: if_splits)
  have lk: "links_ok d"
    using assms(2) by (simp add: store_inv_def)
  have old: "old \<in> set (element_links d)" "lk_id old = lid"
    using Some by (auto simp: find_Some_iff)
  then obtain xs ys where ls: "element_links d = xs @ old # ys"
    by (auto dest: split_list)
  have nin: "lid \<notin> lk_id ` set xs" "lid \<notin> lk_id ` set ys"
    using lk old(2) by (auto simp: links_ok_def ls)
  have mx: "map ?f xs = xs" and my: "map ?f ys = ys"
    using nin by (simp_all add: map_update_absent)
  have fx: "filter (\<lambda>l. lk_id l \<noteq> lid) xs = xs" and fy: "filter (\<lambda>l. lk_id l \<noteq> lid) ys = ys"
    using nin by (simp_all add: filter_other_absent)
  let ?old' = "old\<lparr>lk_rel := new_rel, lk_note := new_note, lk_updated_at := ts\<rparr>"
  have ls': "element_links d' = xs @ ?old' # ys"
    by (simp add: d' ls mx my old(2))
  have tri: "link_triple ?old' \<notin> link_triple ` (set xs \<union> set ys)"
    using new by (simp add: has_triple_def ls fx fy old(2) link_triple_def image_Un)
  have he: "has_element d' = has_element d"
    by (simp add: d' has_element_def fun_eq_iff)
  have "links_ok d'"
    using lk tri rel unfolding links_ok_def he ls ls'
    by (auto simp: image_Un)
  moreover have "elements_ok d'" "tags_ok d'"
    using assms(2) unfolding store_inv_def elements_ok_def tags_ok_def he
    by (auto simp: d')
  ultimately show ?thesis by (simp add: store_inv_def)
qed

lemma add_tags_loop_inv:
  "add_tags_loop eid ts tgs k c = (r, c') \<Longrightarrow> conn_inv c \<Longrightarrow> conn_inv c'"
proof (induction tgs arbitrary: c k)
  case Nil then show ?case by simp
next
  case (Cons t tgs)
  show ?case
  proof (cases "sql_insert_or_ignore_tag eid t ts (db c)")
    case (Inl e)
    with Cons.prems show ?thesis by simp
  next
    case (Inr p)
    obtain d n where p: "p = (d, n)" by (cases p)
    have "store_inv d"
      using Inr p Cons.prems(2) sql_insert_or_ignore_tag_inv by (auto simp: conn_inv_def)
    then have "conn_inv (c\<lparr>db := d\<rparr>)"
      using Cons.prems(2) by (simp add: conn_inv_def)
    moreover have "add_tags_loop eid ts tgs (k + n) (c\<lparr>db := d\<rparr>) = (r, c')"
      using Cons.prems(1) Inr p by simp
    ultimately show ?thesis by (rule Cons.IH[rotated])
  qed
qed

lemma remove_tags_loop_inv:
  "remove_tags_loop eid tgs k c = (r, c') \<Longrightarrow> conn_inv c \<Longrightarrow> conn_inv c'"
proof (induction tgs arbitrary: c k)
  case Nil then show ?case by simp
next
  case (Cons t tgs)
  obtain d n where p: "sql_delete_tag eid t (db c) = (d, n)"
    by (cases "sql_delete_tag eid t (db c)")
  have "store_inv d"
    using p Cons.prems(2) sql_delete_tag_inv by (auto simp: conn_inv_def)
  then have "conn_inv (c\<lparr>db := d\<rparr>)"
    using Cons.prems(2) by (simp add: conn_inv_def)
  moreover have "remove_tags_loop eid tgs (k + n) (c\<lparr>db := d\<rparr>) = (r, c')"
    using Cons.prems(1) p by simp
  ultimately show ?case by (rule Cons.IH[rotated])
qed

lemma add_tags_inv:
  assumes "add_tags ev c eid tgs = (r, c')" "conn_inv c"
  shows "conn_inv c'"
proof (cases "normalize_tags tgs")
  case (Inl e)
  with assms show ?thesis by (simp add: add_tags_def)
next
  case (Inr norm)
  obtain r1 c1 where l: "add_tags_loop eid (now_utc_iso ev 0) norm 0 c = (r1, c1)"
    by (cases "add_tags_loop eid (now_utc_iso ev 0) norm 0 c")
  then have 1: "conn_inv c1"
    using assms(2) by (rule add_tags_loop_inv)
  show ?thesis
    using assms(1) Inr l 1 commit_inv[OF 1]
    by (auto simp: add_tags_def split: sum.splits)
qed

lemma remove_tags_inv:
  assumes "remove_tags c eid tgs = (r, c')" "conn_inv c"
  shows "conn_inv c'"
proof (cases "normalize_tags tgs")
  case (Inl e)
  with assms show ?thesis by (simp add: remove_tags_def)
next
  case (Inr norm)
  obtain r1 c1 where l: "remove_tags_loop eid norm 0 c = (r1, c1)"
    by (cases "remove_tags_loop eid norm 0 c")
  then have 1: "conn_inv c1"
    using assms(2) by (rule remove_tags_loop_inv)
  show ?thesis
    using assms(1) Inr l commit_inv[OF 1]
    by (auto simp: remove_tags_def)
qed

lemma clear_tags_inv:
  assumes "clear_tags c eid = (r, c')" "conn_inv c"
  shows "conn_inv c'"
proof -
  obtain r1 c1 where e: "execute (sql_delete_tags eid) c = (r1, c1)"
    by (cases "execute (sql_delete_tags eid) c")
  then have 1: "conn_inv c1"
    using assms(2) sql_delete_tags_inv by (rule execute_inv)
  show ?thesis
    using assms(1) e 1 commit_inv[OF 1]
    by (auto simp: clear_tags_def split: sum.splits)
qed

lemma delete_element_inv:
  assumes "delete_element c eid = (r, c')" "conn_inv c"
  shows "conn_inv c'"
proof -
  obtain d n where p: "sql_delete_element eid (db c) = (d, n)"
    by (cases "sql_delete_element eid (db c)")
  have "store_inv d"
    using p assms(2) sql_delete_element_inv by (auto simp: conn_inv_def)
  then show ?thesis
    using assms p by (auto simp: delete_element_def conn_inv_def commit_def)
qed

lemma delete_link_inv:
  assumes "delete_link c lid = (r, c')" "conn_inv c"
  shows "conn_inv c'"
proof -
  obtain d n where p: "sql_delete_link lid (db c) = (d, n)"
    by (cases "sql_delete_link lid (db c)")
  have "store_inv d"
    using p assms(2) sql_delete_link_inv by (auto simp: conn_inv_def)
  then show ?thesis
    using assms p by (auto simp: delete_link_def conn_inv_def commit_def)
qed

lemma create_link_inv:
  assumes "create_link ev c s t rel note i = (r, c')" "conn_inv c"
  shows "conn_inv c'"
proof -
  let ?l = "\<lparr>lk_id = id_or_fresh ev i, lk_src_id = s, lk_dst_id = t, lk_rel = rel,
             lk_note = py_or note [], lk_created_at = now_utc_iso ev 0,
             lk_updated_at = now_utc_iso ev 0\<rparr>"
  obtain r1 c1 where e: "execute (sql_insert_link ?l) c = (r1, c1)"
    by (cases "execute (sql_insert_link ?l) c")
  then have 1: "conn_inv c1"
    using assms(2) sql_insert_link_inv by (rule execute_inv)
  show ?thesis
    using assms e 1 commit_inv[OF 1]
    by (auto simp: create_link_def Let_def split: sum.splits)
qed

lemma update_link_inv:
  assumes "update_link ev c lid orel onote = (r, c')" "conn_inv c"
  shows "conn_inv c'"
proof -
  have *: "conn_inv c1" "conn_inv (commit c1)"
    if "execute (sql_update_link a b ts lid) c = (r1, c1)" for a b ts r1 c1
  proof -
    show "conn_inv c1" using that assms(2) sql_update_link_inv by (rule execute_inv)
    then show "conn_inv (commit c1)" by (rule commit_inv)
  qed
  show ?thesis
    using assms *
    by (auto simp: update_link_def Let_def split: option.splits sum.splits prod.splits if_splits)
qed

lemma create_element_inv:
  assumes "create_element ev c ty title body fmt tags i = (r, c')" "conn_inv c"
  shows "conn_inv c'"
proof (cases "validate_type ty = Inr ty \<and> validate_format fmt = Inr fmt \<and>
               strip title \<noteq> [] \<and> strip body \<noteq> []")
  case False
  with assms show ?thesis
    by (auto simp: create_element_def validate_type_def validate_format_def
        split: sum.splits if_splits)
next
  case True
  let ?row = "\<lparr>el_id = id_or_fresh ev i, el_type = ty, el_format = fmt, el_title = title,
               el_body = body, el_created_at = now_utc_iso ev 0,
               el_updated_at = now_utc_iso ev 0\<rparr>"
  obtain r1 c1 where e: "execute (sql_insert_element ?row) c = (r1, c1)"
    by (cases "execute (sql_insert_element ?row) c")
  have "store_inv d'" if "sql_insert_element ?row d = Inr d'" "store_inv d" for d d'
    using that True by (auto intro: sql_insert_element_inv)
  with e assms(2) have 1: "conn_inv c1"
    by (rule execute_inv)
  show ?thesis
  proof (cases tags)
    case None
    with assms(1) True e 1 commit_inv[OF 1] show ?thesis
      by (auto simp: create_element_def Let_def split: sum.splits)
  next
    case (Some tg)
    obtain r2 c2 where s: "set_tags (later ev) c1 (id_or_fresh ev i) tg = (r2, c2)"
      by (cases "set_tags (later ev) c1 (id_or_fresh ev i) tg")
    then have 2: "conn_inv c2"
      using 1 by (rule set_tags_inv)
    from assms(1) True e Some s 1 2 commit_inv[OF 2] show ?thesis
      by (auto simp: create_element_def Let_def split: sum.splits)
  qed
qed

lemma update_element_inv:
  assumes "update_element ev c eid oty otitle obody ofmt tags = (r, c')" "conn_inv c"
  shows "conn_inv c'"
proof (cases "fetch_element c eid")
  case None
  with assms show ?thesis by (simp add: update_element_def)
next
  case (Some existing)
  define vt where "vt = (case oty of Some t \<Rightarrow> validate_type t | None \<Rightarrow> Inr (el_type existing))"
  define vf where "vf = (case ofmt of Some f \<Rightarrow> validate_format f | None \<Rightarrow> Inr (el_format existing))"
  define new_title where "new_title = (case otitle of Some t \<Rightarrow> t | None \<Rightarrow> el_title existing)"
  define new_body where "new_body = (case obody of Some b \<Rightarrow> b | None \<Rightarrow> el_body existing)"
  have u: "update_element ev c eid oty otitle obody ofmt tags =
     (case vt of
        Inl e \<Rightarrow> (Inl e, c)
      | Inr new_type \<Rightarrow>
     (case vf of
        Inl e \<Rightarrow> (Inl e, c)
      | Inr new_format \<Rightarrow>
          if strip new_title = [] then (Inl (EmptyField ''title''), c)
          else if strip new_body = [] then (Inl (EmptyField ''body''), c)
          else
            (case execute (sql_update_element new_type new_format new_title new_body
                             (now_utc_iso ev 0) eid) c of
               (Inl e, c1) \<Rightarrow> (Inl e, c1)
             | (Inr u, c1) \<Rightarrow>
                 (case tags of
                    None \<Rightarrow> (Inr True, commit c1)
                  | Some tg \<Rightarrow>
                      (case set_tags (later ev) c1 eid tg of
                         (Inl e, c2) \<Rightarrow> (Inl e, c2)
                       | (Inr v, c2) \<Rightarrow> (Inr True, commit c2))))))"
    unfolding update_element_def Let_def vt_def vf_def new_title_def new_body_def
    by (simp add: Some)
  note res = assms(1)[unfolded u]
  show ?thesis
  proof (cases vt)
    case (Inl e)
    with res assms(2) show ?thesis by simp
  next
    case ty: (Inr new_type)
    show ?thesis
    proof (cases vf)
      case (Inl e)
      with assms u ty show ?thesis by simp
    next
      case fm: (Inr new_format)
      show ?thesis
      proof (cases "strip new_title = [] \<or> strip new_body = []")
        case True
        with res assms(2) ty fm show ?thesis by (auto split: if_splits)
      next
        case False
        obtain r1 c1 where e: "execute (sql_update_element new_type new_format new_title new_body
                             (now_utc_iso ev 0) eid) c = (r1, c1)"
          by (cases "execute (sql_update_element new_type new_format new_title new_body
                             (now_utc_iso ev 0) eid) c")
        have "store_inv d'"
          if "sql_update_element new_type new_format new_title new_body (now_utc_iso ev 0) eid d
                = Inr d'" "store_inv d" for d d'
          using that False by (auto intro: sql_update_element_inv)
        with e assms(2) have 1: "conn_inv c1"
          by (rule execute_inv)
        show ?thesis
        proof (cases r1)
          case (Inl x)
          with res ty fm False e 1 show ?thesis by simp
        next
          case (Inr x)
          show ?thesis
          proof (cases tags)
            case None
            with res ty fm False e Inr commit_inv[OF 1] show ?thesis by auto
          next
            case (Some tg)
            obtain r2 c2 where s: "set_tags (later ev) c1 eid tg = (r2, c2)"
              by (cases "set_tags (later ev) c1 eid tg")
            then have 2: "conn_inv c2"
              using 1 by (rule set_tags_inv)
            from res ty fm False e Inr Some s 2 commit_inv[OF 2] show ?thesis
              by (cases r2) auto
          qed
        qed
      qed
    qed
  qed
qed

lemma store_inv_empty: "store_inv empty_db"
  by (simp add: store_inv_def elements_ok_def tags_ok_def links_ok_def empty_db_def)

lemma reachable_conn_inv: "reachable c \<Longrightarrow> conn_inv c"
proof (induction rule: reachable.induct)
  case opened
  show ?case by (simp add: conn_inv_def store_inv_empty)
next
  case (reopened c)
  then show ?case by (simp add: conn_inv_def)
next
  case (by_create_element c ev ty title body fmt tags id_opt)
  then show ?case by (metis create_element_inv prod.collapse)
next
  case (by_update_element c ev element_id oty otitle obody ofmt tags)
  then show ?case by (metis update_element_inv prod.collapse)
next
  case (by_delete_element c element_id)
  then show ?case by (metis delete_element_inv prod.collapse)
next
  case (by_add_tags c ev element_id tgs)
  then show ?case by (metis add_tags_inv prod.collapse)
next
  case (by_remove_tags c element_id tgs)
  then show ?case by (metis remove_tags_inv prod.collapse)
next
  case (by_clear_tags c element_id)
  then show ?case by (metis clear_tags_inv prod.collapse)
next
  case (by_set_tags c ev element_id tgs)
  then show ?case by (metis set_tags_inv prod.collapse)
next
  case (by_create_link c ev src_id dst_id rel nt id_opt)
  then show ?case by (metis create_link_inv prod.collapse)
next
  case (by_update_link c ev link_id orel onote)
  then show ?case by (metis update_link_inv prod.collapse)
next
  case (by_delete_link c link_id)
  then show ?case by (metis delete_link_inv prod.collapse)
qed

subsection \<open>Validation of links\<close>

lemma rule_sets:
  "DERIVED_STATEMENTS = {''lemma'', ''proposition'', ''theorem'', ''corollary''}"
  "STATEMENTS \<union> {''proof''} =
     {''axiom'', ''postulate'', ''lemma'', ''proposition'', ''theorem'', ''corollary'', ''proof''}"
  "STATEMENT_OR_DEF =
     {''axiom'', ''postulate'', ''lemma'', ''proposition'', ''theorem'', ''corollary'',
      ''definition''}"
  "STATEMENT_LIKE_FOR_EQ =
     {''definition'', ''lemma'', ''proposition'', ''theorem'', ''corollary''}"
  "STATEMENTS =
     {''axiom'', ''postulate'', ''lemma'', ''proposition'', ''theorem'', ''corollary''}"
  "set ELEMENT_TYPES =
     {''definition'', ''axiom'', ''postulate'', ''lemma'', ''proposition'', ''theorem'',
      ''corollary'', ''proof'', ''example'', ''counterexample'', ''remark''}"
  by (auto simp: STATEMENTS_def DERIVED_STATEMENTS_def STATEMENT_OR_DEF_def
      STATEMENT_LIKE_FOR_EQ_def ELEMENT_TYPES_def)

lemma map_of_REL_RULES_spec: "map_of REL_RULES rel = map_of spec_relation_table rel"
  by (auto simp: REL_RULES_def spec_relation_table_def STATEMENTS_def DERIVED_STATEMENTS_def
      STATEMENT_OR_DEF_def STATEMENT_LIKE_FOR_EQ_def ELEMENT_TYPES_def)

lemma spec_table_defined:
  "rel \<in> set LINK_RELATIONS \<Longrightarrow> \<exists>S D. map_of spec_relation_table rel = Some (S, D)"
  by (auto simp: in_LINK_RELATIONS spec_relation_table_def)

lemma spec_table_no_empty_type:
  "map_of spec_relation_table rel = Some (S, D) \<Longrightarrow> [] \<notin> S \<and> [] \<notin> D"
  by (auto simp: spec_relation_table_def split: if_splits)

lemma validate_link_semantics_table:
  assumes "src_id \<noteq> dst_id" "fetch_type c src_id = Some st" "fetch_type c dst_id = Some dt"
    "rel \<in> set LINK_RELATIONS"
  shows "validate_link_semantics c src_id dst_id rel =
           (if st \<notin> fst (the (map_of spec_relation_table rel))
              then Inl (if st = [] then EndpointNotFound ''src_id'' src_id
                        else if dt = [] then EndpointNotFound ''dst_id'' dst_id
                        else IncompatibleRelation rel ''src'' st)
            else if dt \<notin> snd (the (map_of spec_relation_table rel))
              then Inl (if dt = [] then EndpointNotFound ''dst_id'' dst_id
                        else IncompatibleRelation rel ''dst'' dt)
            else Inr ())"
proof -
  obtain S D where t: "map_of spec_relation_table rel = Some (S, D)"
    using spec_table_defined[OF assms(4)] by blast
  have ne: "[] \<notin> S" "[] \<notin> D"
    using spec_table_no_empty_type[OF t] by simp_all
  show ?thesis
    using assms ne
    by (auto simp: validate_link_semantics_def validate_rel_def falsy_def Let_def
        map_of_REL_RULES_spec t)
qed

lemma validate_link_semantics_iff:
  assumes "src_id \<noteq> dst_id" "fetch_type c src_id = Some st" "fetch_type c dst_id = Some dt"
    "rel \<in> set LINK_RELATIONS"
  shows "(validate_link_semantics c src_id dst_id rel = Inr ()) = spec_allows rel st dt"
proof -
  obtain S D where t: "map_of spec_relation_table rel = Some (S, D)"
    using spec_table_defined[OF assms(4)] by blast
  show ?thesis
    unfolding validate_link_semantics_table[OF assms] spec_allows_def
    by (simp add: t)
qed

lemma create_link_invalid:
  "validate_link_semantics c src_id dst_id rel = Inl e \<Longrightarrow>
   create_link ev c src_id dst_id rel nt id_opt = (Inl e, c)"
  by (auto simp: create_link_def validate_link_semantics_def split: sum.splits)

lemma create_link_valid:
  "validate_link_semantics c src_id dst_id rel = Inr () \<Longrightarrow>
   create_link ev c src_id dst_id rel nt id_opt =
     (case execute (sql_insert_link
                \<lparr>lk_id = id_or_fresh ev id_opt, lk_src_id = src_id, lk_dst_id = dst_id,
                 lk_rel = rel, lk_note = py_or nt [], lk_created_at = now_utc_iso ev 0,
                 lk_updated_at = now_utc_iso ev 0\<rparr>) c of
        (Inl e, c1) \<Rightarrow> (Inl e, c1)
      | (Inr v, c1) \<Rightarrow> (Inr (id_or_fresh ev id_opt), commit c1))"
  by (auto simp: create_link_def validate_link_semantics_def Let_def split: sum.splits)

lemma fetch_type_has_element: "fetch_type c eid = Some t \<Longrightarrow> has_element (db c) eid"
  using fetch_element_None[of c eid] by (auto simp: fetch_type_def)

lemma create_link_fresh:
  assumes "validate_link_semantics c src_id dst_id rel = Inr ()"
    "\<not> has_triple (element_links (db c)) src_id dst_id rel"
    "id_or_fresh ev id_opt \<notin> set (map lk_id (element_links (db c)))"
  shows "create_link ev c src_id dst_id rel nt id_opt =
     (Inr (id_or_fresh ev id_opt),
      commit (c\<lparr>db := (db c)\<lparr>element_links := element_links (db c) @
         [\<lparr>lk_id = id_or_fresh ev id_opt, lk_src_id = src_id, lk_dst_id = dst_id,
           lk_rel = rel, lk_note = py_or nt [], lk_created_at = now_utc_iso ev 0,
           lk_updated_at = now_utc_iso ev 0\<rparr>]\<rparr>\<rparr>))"
proof -
  have rel: "rel \<in> set LINK_RELATIONS"
    using assms(1) by (auto simp: validate_link_semantics_def validate_rel_def split: if_splits)
  have ends: "has_element (db c) src_id" "has_element (db c) dst_id"
    using assms(1) fetch_type_has_element[of c src_id] fetch_type_has_element[of c dst_id]
    by (auto simp: validate_link_semantics_def validate_rel_def falsy_def Let_def
        split: if_splits)
  show ?thesis
    using rel ends assms(2,3)
    by (simp add: create_link_valid[OF assms(1)] execute_def sql_insert_link_def)
qed

subsection \<open>Updates of a missing id\<close>

text \<open>
  C9. \<^verbatim>\<open>update_element\<close> and \<^verbatim>\<open>update_link\<close> look the target up before they
  validate anything: for an id that is not in the store they return \<^verbatim>\<open>False\<close>,
  raise nothing and leave the connection as it was, whatever the other arguments are,
  valid or not.
\<close>

theorem update_of_missing_id_returns_False:
  "(\<not> has_element (db c) element_id \<longrightarrow>
      update_element ev c element_id ty title body fmt tags = (Inr False, c)) \<and>
   (link_id \<notin> set (map lk_id (element_links (db c))) \<longrightarrow>
      update_link ev c link_id rel note = (Inr False, c))"
proof (intro conjI impI)
  assume "\<not> has_element (db c) element_id"
  then have "fetch_element c element_id = None"
    by (simp add: fetch_element_None)
  then show "update_element ev c element_id ty title body fmt tags = (Inr False, c)"
    by (simp add: update_element_def)
next
  assume "link_id \<notin> set (map lk_id (element_links (db c)))"
  then have "fetch_link c link_id = None"
    by (simp add: fetch_link_None)
  then show "update_link ev c link_id rel note = (Inr False, c)"
    by (simp add: update_link_def)
qed

theorem update_of_missing_id_witness:
  "\<not> has_element (db demo_conn) ''zz'' \<and>
   update_element env0 demo_conn ''zz'' (Some ''poem'') (Some ''  '') (Some []) (Some ''pdf'')
     (Some ['' '']) = (Inr False, demo_conn) \<and>
   ''zz'' \<notin> set (map lk_id (element_links (db demo_conn))) \<and>
   update_link env0 demo_conn ''zz'' (Some ''cites'') (Some []) = (Inr False, demo_conn)"
proof -
  have a: "\<not> has_element (db demo_conn) ''zz''"
    by (simp add: has_element_def demo_conn_def demo_db_def)
  have b: "''zz'' \<notin> set (map lk_id (element_links (db demo_conn)))"
    by (simp add: demo_conn_def demo_db_def)
  from a b
    update_of_missing_id_returns_False
      [of demo_conn "''zz''" env0 "Some ''poem''" "Some ''  ''" "Some []" "Some ''pdf''"
          "Some ['' '']" "''zz''" "Some ''cites''" "Some []"]
  show ?thesis by blast
qed

subsection \<open>Links and the relation-semantics table\<close>

lemma demo_types:
  "fetch_type demo_conn ''p1'' = Some ''proof''"
  "fetch_type demo_conn ''t1'' = Some ''theorem''"
  "fetch_type demo_conn ''t2'' = Some ''theorem''"
  "fetch_type demo_conn ''r1'' = Some ''remark''"
  by (simp_all add: fetch_type_def fetch_element_def demo_conn_def demo_db_def)

text \<open>
  C2, as amended. For two distinct stored elements and a relation of the enumeration,
  \<^verbatim>\<open>validate_link_semantics\<close> accepts exactly when the table of the specification
  allows the type of the source on the source side and the type of the destination on
  the destination side. \<^verbatim>\<open>create_link\<close> returns the new id under the same condition,
  provided that no link with this \<open>(src_id, dst_id, rel)\<close> and no link with the new id
  is stored yet. In particular a proof and a theorem can be linked by \<^verbatim>\<open>proves\<close> under
  that proviso, and the reversed link is always refused with the error that names the
  relation, the source side and the type \<^verbatim>\<open>theorem\<close>.
\<close>

theorem link_accepted_iff_table_allows:
  assumes "src_id \<noteq> dst_id"
    and "fetch_type c src_id = Some src_type"
    and "fetch_type c dst_id = Some dst_type"
    and "rel \<in> set LINK_RELATIONS"
  shows "(validate_link_semantics c src_id dst_id rel = Inr ()) = spec_allows rel src_type dst_type \<and>
    (\<not> has_triple (element_links (db c)) src_id dst_id rel \<and>
     id_or_fresh ev id_opt \<notin> set (map lk_id (element_links (db c))) \<longrightarrow>
       (\<exists>c'. create_link ev c src_id dst_id rel nt id_opt = (Inr (id_or_fresh ev id_opt), c'))
         = spec_allows rel src_type dst_type) \<and>
    (src_type = ''proof'' \<and> dst_type = ''theorem'' \<and>
     \<not> has_triple (element_links (db c)) src_id dst_id ''proves'' \<and>
     id_or_fresh ev id_opt \<notin> set (map lk_id (element_links (db c))) \<longrightarrow>
       (\<exists>c'. create_link ev c src_id dst_id ''proves'' nt id_opt
                = (Inr (id_or_fresh ev id_opt), c'))) \<and>
    (src_type = ''theorem'' \<and> dst_type = ''proof'' \<longrightarrow>
       create_link ev c src_id dst_id ''proves'' nt id_opt
         = (Inl (IncompatibleRelation ''proves'' ''src'' ''theorem''), c))"
proof (intro conjI impI)
  show iff: "(validate_link_semantics c src_id dst_id rel = Inr ()) = spec_allows rel src_type dst_type"
    using assms by (rule validate_link_semantics_iff)
  show "(\<exists>c'. create_link ev c src_id dst_id rel nt id_opt = (Inr (id_or_fresh ev id_opt), c'))
         = spec_allows rel src_type dst_type"
    if fresh: "\<not> has_triple (element_links (db c)) src_id dst_id rel \<and>
     id_or_fresh ev id_opt \<notin> set (map lk_id (element_links (db c)))"
  proof (cases "validate_link_semantics c src_id dst_id rel")
    case (Inl e)
    then show ?thesis
      using iff create_link_invalid[OF Inl] by simp
  next
    case (Inr u)
    then have "validate_link_semantics c src_id dst_id rel = Inr ()" by simp
    then show ?thesis
      using iff fresh create_link_fresh by simp
  qed
  show "\<exists>c'. create_link ev c src_id dst_id ''proves'' nt id_opt
                = (Inr (id_or_fresh ev id_opt), c')"
    if h: "src_type = ''proof'' \<and> dst_type = ''theorem'' \<and>
     \<not> has_triple (element_links (db c)) src_id dst_id ''proves'' \<and>
     id_or_fresh ev id_opt \<notin> set (map lk_id (element_links (db c)))"
  proof -
    have "spec_allows ''proves'' src_type dst_type"
      using h by (simp add: spec_allows_def spec_relation_table_def)
    then have "validate_link_semantics c src_id dst_id ''proves'' = Inr ()"
      using validate_link_semantics_iff[OF assms(1-3), of "''proves''"]
      by (simp add: in_LINK_RELATIONS)
    then show ?thesis
      using h create_link_fresh by simp
  qed
  show "create_link ev c src_id dst_id ''proves'' nt id_opt
         = (Inl (IncompatibleRelation ''proves'' ''src'' ''theorem''), c)"
    if h: "src_type = ''theorem'' \<and> dst_type = ''proof''"
  proof -
    have "validate_link_semantics c src_id dst_id ''proves''
            = Inl (IncompatibleRelation ''proves'' ''src'' ''theorem'')"
      using h validate_link_semantics_table[OF assms(1-3), of "''proves''"]
      by (simp add: in_LINK_RELATIONS spec_relation_table_def)
    then show ?thesis by (rule create_link_invalid)
  qed
qed

theorem link_accepted_witness:
  "''p1'' \<noteq> ''t2'' \<and> fetch_type demo_conn ''p1'' = Some ''proof'' \<and>
   fetch_type demo_conn ''t2'' = Some ''theorem'' \<and> ''proves'' \<in> set LINK_RELATIONS \<and>
   \<not> has_triple (element_links (db demo_conn)) ''p1'' ''t2'' ''proves'' \<and>
   id_or_fresh env0 None \<notin> set (map lk_id (element_links (db demo_conn))) \<and>
   validate_link_semantics demo_conn ''p1'' ''t2'' ''proves'' = Inr () \<and>
   (\<exists>c'. create_link env0 demo_conn ''p1'' ''t2'' ''proves'' [] None = (Inr ''u-77'', c')) \<and>
   create_link env0 demo_conn ''t2'' ''p1'' ''proves'' [] None
     = (Inl (IncompatibleRelation ''proves'' ''src'' ''theorem''), demo_conn)"
proof -
  have ne: "''p1'' \<noteq> ''t2''" "''t2'' \<noteq> ''p1''" by simp_all
  have rel: "''proves'' \<in> set LINK_RELATIONS" by (simp add: in_LINK_RELATIONS)
  have fresh: "\<not> has_triple (element_links (db demo_conn)) ''p1'' ''t2'' ''proves''"
    "id_or_fresh env0 None \<notin> set (map lk_id (element_links (db demo_conn)))"
    "id_or_fresh env0 None = ''u-77''"
    by (simp_all add: has_triple_def link_triple_def id_or_fresh_def env0_def demo_conn_def
        demo_db_def)
  have ok: "spec_allows ''proves'' ''proof'' ''theorem''"
    by (simp add: spec_allows_def spec_relation_table_def)
  from link_accepted_iff_table_allows [OF ne(1) demo_types(1) demo_types(3) rel, of env0 None "[]"]
    link_accepted_iff_table_allows [OF ne(2) demo_types(3) demo_types(1) rel, of env0 None "[]"]
    fresh ok demo_types rel
  show ?thesis by simp
qed

text \<open>
  C2 as stated fails where the link is stored already: \<open>p1\<close> is a proof, \<open>t1\<close> is a
  theorem, and \<^verbatim>\<open>create_link\<close> from \<open>p1\<close> to \<open>t1\<close> with \<^verbatim>\<open>proves\<close> raises the
  error of the unique index.
\<close>

theorem link_duplicate_counterexample:
  "fetch_type demo_conn ''p1'' = Some ''proof'' \<and>
   fetch_type demo_conn ''t1'' = Some ''theorem'' \<and>
   create_link env0 demo_conn ''p1'' ''t1'' ''proves'' [] None = (Inl DuplicateLink, demo_conn)"
proof -
  have ne: "''p1'' \<noteq> ''t1''" by simp
  have rel: "''proves'' \<in> set LINK_RELATIONS" by (simp add: in_LINK_RELATIONS)
  have "spec_allows ''proves'' ''proof'' ''theorem''"
    by (simp add: spec_allows_def spec_relation_table_def)
  then have "validate_link_semantics demo_conn ''p1'' ''t1'' ''proves'' = Inr ()"
    using validate_link_semantics_iff[OF ne demo_types(1) demo_types(2) rel] by simp
  then have "create_link env0 demo_conn ''p1'' ''t1'' ''proves'' [] None = (Inl DuplicateLink, demo_conn)"
    by (simp add: create_link_valid execute_def sql_insert_link_def in_LINK_RELATIONS
        has_triple_def link_triple_def demo_conn_def demo_db_def)
  with demo_types show ?thesis by simp
qed

subsection \<open>Self-links\<close>

text \<open>
  C3, as amended. For every id \<open>a\<close>, stored or not, \<^verbatim>\<open>validate_link_semantics\<close> and
  \<^verbatim>\<open>create_link\<close> from \<open>a\<close> to \<open>a\<close> raise the self-link error when the relation is
  one of the seven kinds, and the invalid-relation error when it is not: the relation
  is validated first, the ids are compared next, and the store is only read after that.
  The connection is left as it was.
\<close>

theorem self_link_rejected:
  "validate_link_semantics c a a rel =
     Inl (if rel \<in> set LINK_RELATIONS then SelfLink else InvalidEnumValue ''rel'' rel) \<and>
   create_link ev c a a rel nt id_opt =
     (Inl (if rel \<in> set LINK_RELATIONS then SelfLink else InvalidEnumValue ''rel'' rel), c)"
  by (simp add: create_link_def validate_link_semantics_def validate_rel_def)

theorem self_link_rejected_witness:
  "\<not> has_element (db demo_conn) ''zz'' \<and>
   create_link env0 demo_conn ''zz'' ''zz'' ''related'' [] None = (Inl SelfLink, demo_conn) \<and>
   create_link env0 demo_conn ''p1'' ''p1'' ''proves'' ''x'' (Some ''l9'') = (Inl SelfLink, demo_conn)"
  using self_link_rejected [of demo_conn "''zz''" "''related''" env0 "[]" None]
    self_link_rejected [of demo_conn "''p1''" "''proves''" env0 "''x''" "Some ''l9''"]
  by (simp add: in_LINK_RELATIONS has_element_def demo_conn_def demo_db_def)

text \<open>
  C3 as stated fails for a relation outside the enumeration: the call raises the
  invalid-relation error, not the self-link error.
\<close>

theorem self_link_unknown_rel_counterexample:
  "create_link env0 demo_conn ''p1'' ''p1'' ''cites'' [] None
     = (Inl (InvalidEnumValue ''rel'' ''cites''), demo_conn) \<and>
   fst (create_link env0 demo_conn ''p1'' ''p1'' ''cites'' [] None) \<noteq> Inl SelfLink"
  by (simp add: create_link_def validate_rel_def in_LINK_RELATIONS)

subsection \<open>Tags: replacing and listing\<close>

lemma normalize_tag_valid: "normalize_tag t = (if strip t = [] then Inl EmptyTag
    else if length (strip t) > 128 then Inl TagTooLong else Inr (strip t))"
  by (simp add: normalize_tag_def Let_def)

lemma normalize_each_Inr:
  "normalize_each tags = Inr ns \<longleftrightarrow> (list_all valid_tag tags \<and> ns = map strip tags)"
proof (induction tags arbitrary: ns)
  case Nil
  show ?case by auto
next
  case (Cons t tags)
  show ?case
  proof (cases "normalize_each tags")
    case (Inl e)
    then have "\<not> list_all valid_tag tags"
      using Cons.IH[of "map strip tags"] by simp
    with Inl show ?thesis
      by (simp add: normalize_tag_valid split: sum.splits)
  next
    case (Inr ms)
    then have "list_all valid_tag tags" "ms = map strip tags"
      using Cons.IH[of ms] by simp_all
    with Inr show ?thesis
      by (auto simp: normalize_tag_valid valid_tag_def[of t])
  qed
qed

lemma first_seen_props:
  "set out = seen \<Longrightarrow> distinct out \<Longrightarrow>
   distinct (first_seen ts seen out) \<and> set (first_seen ts seen out) = seen \<union> set ts"
  by (induction ts seen out rule: first_seen.induct) auto

lemma normalize_tags_Inr:
  "normalize_tags tags = Inr ns \<Longrightarrow>
     list_all valid_tag tags \<and> distinct ns \<and> set ns = set (map strip tags)"
  using first_seen_props[of "[]" "{}" "map strip tags"]
  by (auto simp: normalize_tags_def normalize_each_Inr split: sum.splits)

lemma normalize_tags_valid:
  "list_all valid_tag tags \<Longrightarrow> \<exists>ns. normalize_tags tags = Inr ns"
  using normalize_each_Inr[of tags "map strip tags"]
  by (simp add: normalize_tags_def)


lemma insert_tags_loop_fresh:
  "has_element (db c) eid \<Longrightarrow> distinct ns \<Longrightarrow> \<forall>t \<in> set ns. \<not> has_tag (db c) eid t \<Longrightarrow>
   insert_tags_loop eid ts ns c =
     (Inr (), c\<lparr>db := (db c)\<lparr>element_tags := element_tags (db c) @ new_tag_rows eid ts ns\<rparr>\<rparr>)"
proof (induction ns arbitrary: c)
  case Nil
  show ?case by (simp add: new_tag_rows_def)
next
  case (Cons t ns)
  let ?c1 = "c\<lparr>db := (db c)\<lparr>element_tags := element_tags (db c) @ new_tag_rows eid ts [t]\<rparr>\<rparr>"
  have e: "execute (sql_insert_tag eid t ts) c = (Inr (), ?c1)"
    using Cons.prems by (simp add: execute_def sql_insert_tag_def new_tag_rows_def)
  have "has_element (db ?c1) eid"
    using Cons.prems(1) by (simp add: has_element_def)
  moreover have "distinct ns" using Cons.prems(2) by simp
  moreover have "\<forall>u \<in> set ns. \<not> has_tag (db ?c1) eid u"
    using Cons.prems(2,3) by (auto simp: has_tag_def tag_pair_def new_tag_rows_def)
  ultimately have "insert_tags_loop eid ts ns ?c1 =
     (Inr (), ?c1\<lparr>db := (db ?c1)\<lparr>element_tags := element_tags (db ?c1) @ new_tag_rows eid ts ns\<rparr>\<rparr>)"
    by (rule Cons.IH)
  then show ?case
    using e by (simp add: new_tag_rows_def)
qed

lemma set_tags_result:
  assumes "has_element (db c) eid" "normalize_tags tags = Inr ns"
  shows "set_tags ev c eid tags =
     (Inr (), commit (c\<lparr>db := (db c)\<lparr>element_tags :=
        filter (\<lambda>r. tg_element_id r \<noteq> eid) (element_tags (db c))
        @ new_tag_rows eid (now_utc_iso ev 0) ns\<rparr>\<rparr>))"
proof -
  let ?c1 = "c\<lparr>db := (db c)\<lparr>element_tags :=
        filter (\<lambda>r. tg_element_id r \<noteq> eid) (element_tags (db c))\<rparr>\<rparr>"
  have e: "execute (sql_delete_tags eid) c = (Inr (), ?c1)"
    by (simp add: execute_def sql_delete_tags_def)
  have "has_element (db ?c1) eid"
    using assms(1) by (simp add: has_element_def)
  moreover have "distinct ns"
    using normalize_tags_Inr[OF assms(2)] by simp
  moreover have "\<forall>t \<in> set ns. \<not> has_tag (db ?c1) eid t"
    by (auto simp: has_tag_def tag_pair_def)
  ultimately have "insert_tags_loop eid (now_utc_iso ev 0) ns ?c1 =
     (Inr (), ?c1\<lparr>db := (db ?c1)\<lparr>element_tags := element_tags (db ?c1)
        @ new_tag_rows eid (now_utc_iso ev 0) ns\<rparr>\<rparr>)"
    by (rule insert_tags_loop_fresh)
  then show ?thesis
    using e assms(2) by (simp add: set_tags_def)
qed

lemma sort_distinct_eq:
  fixes xs ys :: "string list"
  shows "distinct xs \<Longrightarrow> set xs = set ys \<Longrightarrow> sort xs = sort (remdups ys)"
  by (intro sorted_distinct_set_unique) simp_all

lemma list_tags_after_set_tags:
  assumes "has_element (db c) eid" "normalize_tags tags = Inr ns"
  shows "list_tags (snd (set_tags ev c eid tags)) eid = sort (remdups (map strip tags))"
proof -
  have "list_tags (snd (set_tags ev c eid tags)) eid = sort ns"
    by (simp add: set_tags_result[OF assms] list_tags_def commit_def new_tag_rows_def
        comp_def filter_map)
  moreover have "sort ns = sort (remdups (map strip tags))"
    using normalize_tags_Inr[OF assms(2)] by (intro sort_distinct_eq) simp_all
  ultimately show ?thesis by simp
qed

text \<open>
  C4. For a stored element and a list of tags that each keep between 1 and 128
  characters after trimming, \<^verbatim>\<open>set_tags\<close> returns, and \<^verbatim>\<open>list_tags\<close> on the
  connection it leaves yields exactly the trimmed tags, without duplicates, in ascending
  order. The example of the specification is the witness.
\<close>

theorem set_tags_then_list_tags:
  assumes "has_element (db c) element_id"
    and "\<forall>t \<in> set tags. strip t \<noteq> [] \<and> length (strip t) \<le> 128"
  shows "\<exists>c'. set_tags ev c element_id tags = (Inr (), c') \<and>
              list_tags c' element_id = sort (remdups (map strip tags))"
proof -
  have "list_all valid_tag tags"
    using assms(2) by (simp add: list_all_iff valid_tag_def)
  then obtain ns where ns: "normalize_tags tags = Inr ns"
    using normalize_tags_valid by blast
  show ?thesis
    using set_tags_result[OF assms(1) ns, of ev] list_tags_after_set_tags[OF assms(1) ns, of ev]
    by simp
qed

theorem set_tags_then_list_tags_witness:
  "has_element (db demo_conn) ''t1'' \<and>
   (\<exists>c'. set_tags env0 demo_conn ''t1'' [''a'', ''b'', ''a'', '' c ''] = (Inr (), c') \<and>
         list_tags c' ''t1'' = [''a'', ''b'', ''c''])"
proof -
  have 1: "has_element (db demo_conn) ''t1''"
    by (simp add: has_element_def demo_conn_def demo_db_def)
  have 2: "\<forall>t \<in> set [''a'', ''b'', ''a'', '' c '']. strip t \<noteq> [] \<and> length (strip t) \<le> 128"
    by (simp add: strip_def isspace_def)
  have 3: "sort (remdups (map strip [''a'', ''b'', ''a'', '' c ''])) = [''a'', ''b'', ''c'']"
    by (simp add: strip_def isspace_def)
  from set_tags_then_list_tags [OF 1 2, of env0] 1 3 show ?thesis by simp
qed

subsection \<open>Creating an element and reading it back\<close>

lemma find_append_new:
  "\<forall>x \<in> set xs. \<not> P x \<Longrightarrow> P y \<Longrightarrow> find P (xs @ [y]) = Some y"
  by (induction xs) auto

lemma insert_tags_loop_elements:
  "elements (db (snd (insert_tags_loop eid ts ns c))) = elements (db c)"
proof (induction ns arbitrary: c)
  case Nil
  show ?case by simp
next
  case (Cons t ns)
  show ?case
  proof (cases "sql_insert_tag eid t ts (db c)")
    case (Inl e)
    then show ?thesis by (simp add: execute_def)
  next
    case (Inr d)
    then have "elements d = elements (db c)"
      by (auto simp: sql_insert_tag_def split: if_splits)
    with Inr Cons.IH[of "c\<lparr>db := d\<rparr>"] show ?thesis
      by (simp add: execute_def)
  qed
qed

lemma set_tags_elements:
  "elements (db (snd (set_tags ev c eid tags))) = elements (db c)"
proof (cases "normalize_tags tags")
  case (Inl e)
  then show ?thesis by (simp add: set_tags_def)
next
  case (Inr ns)
  let ?c1 = "c\<lparr>db := (db c)\<lparr>element_tags :=
        filter (\<lambda>r. tg_element_id r \<noteq> eid) (element_tags (db c))\<rparr>\<rparr>"
  have e: "execute (sql_delete_tags eid) c = (Inr (), ?c1)"
    by (simp add: execute_def sql_delete_tags_def)
  obtain r2 c2 where l: "insert_tags_loop eid (now_utc_iso ev 0) ns ?c1 = (r2, c2)"
    by (cases "insert_tags_loop eid (now_utc_iso ev 0) ns ?c1")
  have "elements (db c2) = elements (db c)"
    using insert_tags_loop_elements[of eid "now_utc_iso ev 0" ns ?c1] l by simp
  then show ?thesis
    using Inr e l by (cases r2) (simp_all add: set_tags_def commit_def)
qed

lemma create_element_unfold:
  "create_element ev c ty title body fmt tags id_opt =
     (if ty \<notin> set ELEMENT_TYPES then (Inl (InvalidEnumValue ''type'' ty), c)
      else if fmt \<notin> set FORMATS then (Inl (InvalidEnumValue ''format'' fmt), c)
      else if strip title = [] then (Inl (EmptyField ''title''), c)
      else if strip body = [] then (Inl (EmptyField ''body''), c)
      else if has_element (db c) (id_or_fresh ev id_opt)
        then (Inl (IntegrityError UniqueElementId), c)
      else
        (let c1 = c\<lparr>db := (db c)\<lparr>elements := elements (db c) @
                   [\<lparr>el_id = id_or_fresh ev id_opt, el_type = ty, el_format = fmt,
                     el_title = title, el_body = body, el_created_at = now_utc_iso ev 0,
                     el_updated_at = now_utc_iso ev 0\<rparr>]\<rparr>\<rparr>
         in case tags of
              None \<Rightarrow> (Inr (id_or_fresh ev id_opt), commit c1)
            | Some tg \<Rightarrow>
                (case set_tags (later ev) c1 (id_or_fresh ev id_opt) tg of
                   (Inl e, c2) \<Rightarrow> (Inl e, c2)
                 | (Inr v, c2) \<Rightarrow> (Inr (id_or_fresh ev id_opt), commit c2))))"
  by (simp add: create_element_def validate_type_def validate_format_def Let_def execute_def
      sql_insert_element_def)

lemma create_element_returns:
  assumes "create_element ev c ty title body fmt tags id_opt = (Inr eid, c')"
  shows "eid = id_or_fresh ev id_opt \<and> ty \<in> set ELEMENT_TYPES \<and> fmt \<in> set FORMATS \<and>
         strip title \<noteq> [] \<and> strip body \<noteq> [] \<and> \<not> has_element (db c) eid \<and>
         elements (db c') = elements (db c) @
           [\<lparr>el_id = eid, el_type = ty, el_format = fmt, el_title = title, el_body = body,
             el_created_at = now_utc_iso ev 0, el_updated_at = now_utc_iso ev 0\<rparr>]"
proof -
  let ?eid = "id_or_fresh ev id_opt"
  let ?c1 = "c\<lparr>db := (db c)\<lparr>elements := elements (db c) @
                   [\<lparr>el_id = ?eid, el_type = ty, el_format = fmt,
                     el_title = title, el_body = body, el_created_at = now_utc_iso ev 0,
                     el_updated_at = now_utc_iso ev 0\<rparr>]\<rparr>\<rparr>"
  note r = assms[unfolded create_element_unfold]
  have v: "ty \<in> set ELEMENT_TYPES" "fmt \<in> set FORMATS" "strip title \<noteq> []" "strip body \<noteq> []"
    "\<not> has_element (db c) ?eid"
    using r by (auto split: if_splits)
  show ?thesis
  proof (cases tags)
    case None
    with r v show ?thesis by (auto simp: commit_def)
  next
    case (Some tg)
    obtain r2 c2 where s: "set_tags (later ev) ?c1 ?eid tg = (r2, c2)"
      by (cases "set_tags (later ev) ?c1 ?eid tg")
    have "elements (db c2) = elements (db ?c1)"
      using set_tags_elements[of "later ev" ?c1 ?eid tg] s by simp
    with r v Some s show ?thesis
      by (cases r2) (auto simp: commit_def Let_def)
  qed
qed

lemma create_element_succeeds:
  assumes "ty \<in> set ELEMENT_TYPES" "fmt \<in> set FORMATS" "strip title \<noteq> []" "strip body \<noteq> []"
    "\<not> has_element (db c) (id_or_fresh ev id_opt)"
    "case tags of None \<Rightarrow> True | Some tg \<Rightarrow> list_all valid_tag tg"
  shows "\<exists>c'. create_element ev c ty title body fmt tags id_opt = (Inr (id_or_fresh ev id_opt), c')"
proof (cases tags)
  case None
  with assms show ?thesis by (simp add: create_element_unfold Let_def)
next
  case (Some tg)
  let ?eid = "id_or_fresh ev id_opt"
  let ?c1 = "c\<lparr>db := (db c)\<lparr>elements := elements (db c) @
                   [\<lparr>el_id = ?eid, el_type = ty, el_format = fmt,
                     el_title = title, el_body = body, el_created_at = now_utc_iso ev 0,
                     el_updated_at = now_utc_iso ev 0\<rparr>]\<rparr>\<rparr>"
  obtain ns where ns: "normalize_tags tg = Inr ns"
    using assms(6) Some normalize_tags_valid by auto
  have "has_element (db ?c1) ?eid" by (simp add: has_element_def)
  from set_tags_result[OF this ns, of "later ev"] assms(1-5) Some show ?thesis
    by (simp add: create_element_unfold Let_def)
qed

text \<open>
  C5. For a valid type, a title and a body with a character that is not white space, a
  valid format, valid tags if any, and an id that no stored element has,
  \<^verbatim>\<open>create_element\<close> returns the id; and whenever \<^verbatim>\<open>create_element\<close> returns an
  id, \<^verbatim>\<open>get_element\<close> on it (with or without tags) yields the record with that id and
  exactly the type, title, body and format supplied, whose \<open>created_at\<close> and
  \<open>updated_at\<close> are equal.
\<close>

theorem create_then_get:
  "(ty \<in> set ELEMENT_TYPES \<and> strip title \<noteq> [] \<and> strip body \<noteq> [] \<and> fmt \<in> set FORMATS \<and>
    (case tags of None \<Rightarrow> True | Some tg \<Rightarrow> list_all valid_tag tg) \<and>
    \<not> has_element (db c) (id_or_fresh ev id_opt)
      \<longrightarrow> (\<exists>c'. create_element ev c ty title body fmt tags id_opt
                  = (Inr (id_or_fresh ev id_opt), c'))) \<and>
   (create_element ev c ty title body fmt tags id_opt = (Inr eid, c')
      \<longrightarrow> (\<exists>row tgs. get_element c' eid True = Some (row, Some tgs) \<and>
             get_element c' eid False = Some (row, None) \<and>
             el_id row = eid \<and> el_type row = ty \<and> el_title row = title \<and> el_body row = body \<and>
             el_format row = fmt \<and> el_created_at row = el_updated_at row))"
proof (intro conjI impI)
  assume "ty \<in> set ELEMENT_TYPES \<and> strip title \<noteq> [] \<and> strip body \<noteq> [] \<and> fmt \<in> set FORMATS \<and>
    (case tags of None \<Rightarrow> True | Some tg \<Rightarrow> list_all valid_tag tg) \<and>
    \<not> has_element (db c) (id_or_fresh ev id_opt)"
  then show "\<exists>c'. create_element ev c ty title body fmt tags id_opt
                  = (Inr (id_or_fresh ev id_opt), c')"
    by (intro create_element_succeeds) simp_all
next
  assume a: "create_element ev c ty title body fmt tags id_opt = (Inr eid, c')"
  let ?row = "\<lparr>el_id = eid, el_type = ty, el_format = fmt, el_title = title, el_body = body,
             el_created_at = now_utc_iso ev 0, el_updated_at = now_utc_iso ev 0\<rparr>"
  from create_element_returns[OF a]
  have new: "\<not> has_element (db c) eid" and els: "elements (db c') = elements (db c) @ [?row]"
    by blast+
  have "fetch_element c' eid = Some ?row"
    unfolding fetch_element_def els using new
    by (intro find_append_new) (auto simp: has_element_def)
  then show "\<exists>row tgs. get_element c' eid True = Some (row, Some tgs) \<and>
             get_element c' eid False = Some (row, None) \<and>
             el_id row = eid \<and> el_type row = ty \<and> el_title row = title \<and> el_body row = body \<and>
             el_format row = fmt \<and> el_created_at row = el_updated_at row"
    by (simp add: get_element_def)
qed

theorem create_then_get_witness:
  "''lemma'' \<in> set ELEMENT_TYPES \<and> strip ''Zorn'' \<noteq> [] \<and> strip ''Every chain ...'' \<noteq> [] \<and>
   ''markdown'' \<in> set FORMATS \<and> list_all valid_tag [''order''] \<and>
   \<not> has_element (db demo_conn) (id_or_fresh env0 None) \<and>
   (\<exists>c'. create_element env0 demo_conn ''lemma'' ''Zorn'' ''Every chain ...'' ''markdown''
            (Some [''order'']) None = (Inr ''u-77'', c') \<and>
      (\<exists>row tgs. get_element c' ''u-77'' True = Some (row, Some tgs) \<and>
             get_element c' ''u-77'' False = Some (row, None) \<and>
             el_id row = ''u-77'' \<and> el_type row = ''lemma'' \<and> el_title row = ''Zorn'' \<and>
             el_body row = ''Every chain ...'' \<and> el_format row = ''markdown'' \<and>
             el_created_at row = el_updated_at row))"
proof -
  have h: "''lemma'' \<in> set ELEMENT_TYPES" "strip ''Zorn'' \<noteq> []"
    "strip ''Every chain ...'' \<noteq> []" "''markdown'' \<in> set FORMATS"
    "list_all valid_tag [''order'']"
    "\<not> has_element (db demo_conn) (id_or_fresh env0 None)"
    "id_or_fresh env0 None = ''u-77''"
    by (simp_all add: in_ELEMENT_TYPES in_FORMATS strip_def isspace_def valid_tag_def
        has_element_def id_or_fresh_def env0_def demo_conn_def demo_db_def)
  note t = create_then_get [of "''lemma''" "''Zorn''" "''Every chain ...''" "''markdown''"
      "Some [''order'']" demo_conn env0 None]
  from t h obtain c' where
    c': "create_element env0 demo_conn ''lemma'' ''Zorn'' ''Every chain ...'' ''markdown''
            (Some [''order'']) None = (Inr ''u-77'', c')"
    by auto
  from t [of "''u-77''" c'] c' h show ?thesis by simp
qed

subsection \<open>Updating an element\<close>

lemma find_map_same:
  "(\<And>x. P (f x) = P x) \<Longrightarrow> find P (map f xs) = map_option f (find P xs)"
  by (induction xs) auto

lemma fetch_element_Some:
  "fetch_element c eid = Some e \<Longrightarrow> e \<in> set (elements (db c)) \<and> el_id e = eid"
  by (auto simp: fetch_element_def find_Some_iff)

lemma update_element_unfold:
  assumes "fetch_element c eid = Some existing"
  shows "update_element ev c eid oty otitle obody ofmt tags =
     (case (case oty of Some t \<Rightarrow> validate_type t | None \<Rightarrow> Inr (el_type existing)) of
        Inl e \<Rightarrow> (Inl e, c)
      | Inr new_type \<Rightarrow>
     (case (case ofmt of Some f \<Rightarrow> validate_format f | None \<Rightarrow> Inr (el_format existing)) of
        Inl e \<Rightarrow> (Inl e, c)
      | Inr new_format \<Rightarrow>
          if strip (case otitle of Some t \<Rightarrow> t | None \<Rightarrow> el_title existing) = []
            then (Inl (EmptyField ''title''), c)
          else if strip (case obody of Some b \<Rightarrow> b | None \<Rightarrow> el_body existing) = []
            then (Inl (EmptyField ''body''), c)
          else
            (case execute (sql_update_element new_type new_format
                             (case otitle of Some t \<Rightarrow> t | None \<Rightarrow> el_title existing)
                             (case obody of Some b \<Rightarrow> b | None \<Rightarrow> el_body existing)
                             (now_utc_iso ev 0) eid) c of
               (Inl e, c1) \<Rightarrow> (Inl e, c1)
             | (Inr u, c1) \<Rightarrow>
                 (case tags of
                    None \<Rightarrow> (Inr True, commit c1)
                  | Some tg \<Rightarrow>
                      (case set_tags (later ev) c1 eid tg of
                         (Inl e, c2) \<Rightarrow> (Inl e, c2)
                       | (Inr v, c2) \<Rightarrow> (Inr True, commit c2))))))"
  unfolding update_element_def Let_def by (simp add: assms)

lemma update_element_returns:
  assumes f: "fetch_element c eid = Some existing"
    and u: "update_element ev c eid oty otitle obody ofmt tags = (Inr True, c')"
  shows "elements (db c') =
           map (\<lambda>r. if el_id r = eid then merged_row ev existing oty otitle obody ofmt r else r)
             (elements (db c)) \<and>
         (tags = None \<longrightarrow> element_tags (db c') = element_tags (db c))"
proof -
  define vt where "vt = (case oty of Some t \<Rightarrow> validate_type t | None \<Rightarrow> Inr (el_type existing))"
  define vf where "vf = (case ofmt of Some f \<Rightarrow> validate_format f | None \<Rightarrow> Inr (el_format existing))"
  define new_title where "new_title = (case otitle of Some t \<Rightarrow> t | None \<Rightarrow> el_title existing)"
  define new_body where "new_body = (case obody of Some b \<Rightarrow> b | None \<Rightarrow> el_body existing)"
  note r = u[unfolded update_element_unfold[OF f], folded vt_def vf_def new_title_def new_body_def]
  obtain new_type where ty: "vt = Inr new_type"
    using r by (cases vt) auto
  obtain new_format where fm: "vf = Inr new_format"
    using r ty by (cases vf) auto
  have nt: "new_type = (case oty of Some t \<Rightarrow> t | None \<Rightarrow> el_type existing)"
    using ty by (auto simp: vt_def validate_type_def split: option.splits if_splits)
  have nf: "new_format = (case ofmt of Some f \<Rightarrow> f | None \<Rightarrow> el_format existing)"
    using fm by (auto simp: vf_def validate_format_def split: option.splits if_splits)
  have nb: "strip new_title \<noteq> []" "strip new_body \<noteq> []"
    using r ty fm by (auto split: if_splits)
  obtain r1 c1 where e: "execute (sql_update_element new_type new_format new_title new_body
                             (now_utc_iso ev 0) eid) c = (r1, c1)"
    by (cases "execute (sql_update_element new_type new_format new_title new_body
                             (now_utc_iso ev 0) eid) c")
  have r1: "r1 = Inr ()"
    using r ty fm nb e by (cases r1) auto
  have c1: "elements (db c1) =
           map (\<lambda>r. if el_id r = eid then merged_row ev existing oty otitle obody ofmt r else r)
             (elements (db c))" "element_tags (db c1) = element_tags (db c)"
    using e r1
    by (auto simp: execute_def sql_update_element_def merged_row_def nt nf new_title_def
        new_body_def split: sum.splits if_splits)
  show ?thesis
  proof (cases tags)
    case None
    with r ty fm nb e r1 c1 show ?thesis by (auto simp: commit_def)
  next
    case (Some tg)
    obtain r2 c2 where s: "set_tags (later ev) c1 eid tg = (r2, c2)"
      by (cases "set_tags (later ev) c1 eid tg")
    have "elements (db c2) = elements (db c1)"
      using set_tags_elements[of "later ev" c1 eid tg] s by simp
    with r ty fm nb e r1 c1 Some s show ?thesis
      by (cases r2) (auto simp: commit_def)
  qed
qed

lemma update_element_succeeds:
  assumes "store_inv (db c)" "fetch_element c eid = Some existing"
    and "case oty of None \<Rightarrow> True | Some t \<Rightarrow> t \<in> set ELEMENT_TYPES"
    and "case ofmt of None \<Rightarrow> True | Some f \<Rightarrow> f \<in> set FORMATS"
    and "case otitle of None \<Rightarrow> True | Some t \<Rightarrow> strip t \<noteq> []"
    and "case obody of None \<Rightarrow> True | Some b \<Rightarrow> strip b \<noteq> []"
    and "case tags of None \<Rightarrow> True | Some tg \<Rightarrow> list_all valid_tag tg"
  shows "\<exists>c'. update_element ev c eid oty otitle obody ofmt tags = (Inr True, c')"
proof -
  define new_type where "new_type = (case oty of Some t \<Rightarrow> t | None \<Rightarrow> el_type existing)"
  define new_format where "new_format = (case ofmt of Some f \<Rightarrow> f | None \<Rightarrow> el_format existing)"
  define new_title where "new_title = (case otitle of Some t \<Rightarrow> t | None \<Rightarrow> el_title existing)"
  define new_body where "new_body = (case obody of Some b \<Rightarrow> b | None \<Rightarrow> el_body existing)"
  have e: "existing \<in> set (elements (db c))" "el_id existing = eid"
    using fetch_element_Some[OF assms(2)] by simp_all
  then have ok: "el_type existing \<in> set ELEMENT_TYPES" "el_format existing \<in> set FORMATS"
    "strip (el_title existing) \<noteq> []" "strip (el_body existing) \<noteq> []"
    using assms(1) by (auto simp: store_inv_def elements_ok_def)
  have vt: "(case oty of Some t \<Rightarrow> validate_type t | None \<Rightarrow> Inr (el_type existing)) = Inr new_type"
    using assms(3) by (auto simp: new_type_def validate_type_def split: option.splits)
  have vf: "(case ofmt of Some f \<Rightarrow> validate_format f | None \<Rightarrow> Inr (el_format existing))
              = Inr new_format"
    using assms(4) by (auto simp: new_format_def validate_format_def split: option.splits)
  have chk: "new_type \<in> set ELEMENT_TYPES" "new_format \<in> set FORMATS"
    "strip new_title \<noteq> []" "strip new_body \<noteq> []"
    using assms(3-6) ok
    by (simp_all add: new_type_def new_format_def new_title_def new_body_def split: option.splits)
  define c1 where "c1 = c\<lparr>db := (db c)\<lparr>elements :=
     map (\<lambda>r. if el_id r = eid
               then r\<lparr>el_type := new_type, el_format := new_format, el_title := new_title,
                      el_body := new_body, el_updated_at := now_utc_iso ev 0\<rparr>
               else r) (elements (db c))\<rparr>\<rparr>"
  have ex: "execute (sql_update_element new_type new_format new_title new_body
                             (now_utc_iso ev 0) eid) c = (Inr (), c1)"
    using chk by (simp add: execute_def sql_update_element_def c1_def)
  have u: "update_element ev c eid oty otitle obody ofmt tags =
      (case tags of
         None \<Rightarrow> (Inr True, commit c1)
       | Some tg \<Rightarrow>
           (case set_tags (later ev) c1 eid tg of
              (Inl e, c2) \<Rightarrow> (Inl e, c2)
            | (Inr v, c2) \<Rightarrow> (Inr True, commit c2)))"
    unfolding update_element_unfold[OF assms(2)] vt vf
    using chk ex by (simp add: new_title_def new_body_def)
  show ?thesis
  proof (cases tags)
    case None
    with u show ?thesis by simp
  next
    case (Some tg)
    then obtain ns where ns: "normalize_tags tg = Inr ns"
      using assms(7) normalize_tags_valid by auto
    have "has_element (db c1) eid"
      using e by (force simp: has_element_def c1_def)
    from set_tags_result[OF this ns, of "later ev"] u Some show ?thesis by simp
  qed
qed

lemma merged_row_no_fields:
  "merged_row ev existing None None None None existing = existing\<lparr>el_updated_at := now_utc_iso ev 0\<rparr>"
  by (simp add: merged_row_def)

lemma store_inv_demo: "store_inv (db demo_conn)"
  by (simp add: store_inv_def elements_ok_def tags_ok_def links_ok_def demo_conn_def demo_db_def
      has_element_def tag_pair_def link_triple_def in_ELEMENT_TYPES in_FORMATS in_LINK_RELATIONS
      strip_def isspace_def)

text \<open>
  C7. In a store that satisfies its schema, for every stored element:
  \<^verbatim>\<open>update_element\<close> with no field supplied returns \<^verbatim>\<open>True\<close>, and afterwards the
  element reads as before (type, format, title, body, \<open>created_at\<close>, tags) except that
  \<open>updated_at\<close> is the time of the call, and the tag table is as before. More
  generally, whenever \<^verbatim>\<open>update_element\<close> returns \<^verbatim>\<open>True\<close>, every field that was not
  supplied has its prior value (and the tags too, if none were supplied), every supplied
  field has the supplied value, \<open>created_at\<close> is as before and \<open>updated_at\<close> is the
  time of the call. Every connection a program can reach satisfies the schema
  (\<open>reachable_conn_inv\<close>).
\<close>

theorem update_keeps_unsupplied_fields:
  assumes "store_inv (db c)" and "fetch_element c element_id = Some existing"
  shows
    "(\<exists>c'. update_element ev c element_id None None None None None = (Inr True, c') \<and>
           get_element c' element_id True
             = Some (existing\<lparr>el_updated_at := now_utc_iso ev 0\<rparr>, Some (list_tags c element_id)) \<and>
           element_tags (db c') = element_tags (db c)) \<and>
     (update_element ev c element_id oty otitle obody ofmt tags = (Inr True, c'') \<longrightarrow>
        (\<exists>row. fetch_element c'' element_id = Some row \<and>
           el_id row = element_id \<and>
           el_created_at row = el_created_at existing \<and>
           el_updated_at row = now_utc_iso ev 0 \<and>
           el_type row = (case oty of None \<Rightarrow> el_type existing | Some t \<Rightarrow> t) \<and>
           el_format row = (case ofmt of None \<Rightarrow> el_format existing | Some f \<Rightarrow> f) \<and>
           el_title row = (case otitle of None \<Rightarrow> el_title existing | Some t \<Rightarrow> t) \<and>
           el_body row = (case obody of None \<Rightarrow> el_body existing | Some b \<Rightarrow> b) \<and>
           (tags = None \<longrightarrow> element_tags (db c'') = element_tags (db c) \<and>
                             list_tags c'' element_id = list_tags c element_id)))"
proof -
  have id: "el_id existing = element_id"
    using fetch_element_Some[OF assms(2)] by simp
  have general: "fetch_element k element_id = Some (merged_row ev existing a b d f existing) \<and>
      (g = None \<longrightarrow> element_tags (db k) = element_tags (db c) \<and>
                       list_tags k element_id = list_tags c element_id)"
    if "update_element ev c element_id a b d f g = (Inr True, k)" for a b d f g k
  proof -
    note r = update_element_returns[OF assms(2) that]
    have "fetch_element k element_id =
            map_option (\<lambda>r. if el_id r = element_id then merged_row ev existing a b d f r else r)
              (fetch_element c element_id)"
      unfolding fetch_element_def using r
      by (simp add: find_map_same merged_row_def)
    then show ?thesis
      using r assms(2) id by (simp add: list_tags_def)
  qed
  obtain c' where c': "update_element ev c element_id None None None None None = (Inr True, c')"
    using update_element_succeeds[OF assms, of None None None None None ev] by auto
  have "get_element c' element_id True
             = Some (existing\<lparr>el_updated_at := now_utc_iso ev 0\<rparr>, Some (list_tags c element_id))"
    "element_tags (db c') = element_tags (db c)"
    using general[OF c'] by (simp_all add: get_element_def merged_row_no_fields)
  with c' have first: "\<exists>c'. update_element ev c element_id None None None None None = (Inr True, c') \<and>
           get_element c' element_id True
             = Some (existing\<lparr>el_updated_at := now_utc_iso ev 0\<rparr>, Some (list_tags c element_id)) \<and>
           element_tags (db c') = element_tags (db c)"
    by blast
  have second: "\<exists>row. fetch_element c'' element_id = Some row \<and>
           el_id row = element_id \<and>
           el_created_at row = el_created_at existing \<and>
           el_updated_at row = now_utc_iso ev 0 \<and>
           el_type row = (case oty of None \<Rightarrow> el_type existing | Some t \<Rightarrow> t) \<and>
           el_format row = (case ofmt of None \<Rightarrow> el_format existing | Some f \<Rightarrow> f) \<and>
           el_title row = (case otitle of None \<Rightarrow> el_title existing | Some t \<Rightarrow> t) \<and>
           el_body row = (case obody of None \<Rightarrow> el_body existing | Some b \<Rightarrow> b) \<and>
           (tags = None \<longrightarrow> element_tags (db c'') = element_tags (db c) \<and>
                             list_tags c'' element_id = list_tags c element_id)"
    if "update_element ev c element_id oty otitle obody ofmt tags = (Inr True, c'')"
    using general[OF that] id by (simp add: merged_row_def)
  from first second show ?thesis by blast
qed

theorem update_keeps_unsupplied_fields_witness:
  "store_inv (db demo_conn) \<and>
   fetch_element demo_conn ''p1''
     = Some \<lparr>el_id = ''p1'', el_type = ''proof'', el_format = ''plain'',
             el_title = ''Proof of T'', el_body = ''By induction.'',
             el_created_at = ''2024-05-01T08:00:00+00:00'',
             el_updated_at = ''2024-05-01T08:00:00+00:00''\<rparr> \<and>
   (\<exists>c'. update_element env0 demo_conn ''p1'' None None None None None = (Inr True, c') \<and>
      get_element c' ''p1'' True
        = Some (\<lparr>el_id = ''p1'', el_type = ''proof'', el_format = ''plain'',
                  el_title = ''Proof of T'', el_body = ''By induction.'',
                  el_created_at = ''2024-05-01T08:00:00+00:00'',
                  el_updated_at = ''2024-05-02T09:30:00+00:00''\<rparr>, Some [''induction''])) \<and>
   (\<exists>c''. update_element env0 demo_conn ''p1'' None (Some ''Shorter proof'') None None None
             = (Inr True, c'') \<and>
      (\<exists>row. fetch_element c'' ''p1'' = Some row \<and> el_title row = ''Shorter proof'' \<and>
         el_type row = ''proof'' \<and> el_format row = ''plain'' \<and> el_body row = ''By induction.'' \<and>
         el_created_at row = ''2024-05-01T08:00:00+00:00'' \<and>
         el_updated_at row = ''2024-05-02T09:30:00+00:00'' \<and>
         list_tags c'' ''p1'' = [''induction'']))"
proof -
  let ?p = "\<lparr>el_id = ''p1'', el_type = ''proof'', el_format = ''plain'',
             el_title = ''Proof of T'', el_body = ''By induction.'',
             el_created_at = ''2024-05-01T08:00:00+00:00'',
             el_updated_at = ''2024-05-01T08:00:00+00:00''\<rparr>"
  have f: "fetch_element demo_conn ''p1'' = Some ?p"
    by (simp add: fetch_element_def demo_conn_def demo_db_def)
  have tg: "list_tags demo_conn ''p1'' = [''induction'']"
    by (simp add: list_tags_def demo_conn_def demo_db_def)
  have now: "now_utc_iso env0 0 = ''2024-05-02T09:30:00+00:00''"
    by (simp add: env0_def)
  obtain k where k: "update_element env0 demo_conn ''p1'' None (Some ''Shorter proof'') None None None
             = (Inr True, k)"
    using update_element_succeeds[OF store_inv_demo f, of None None "Some ''Shorter proof''" None
        None env0]
    by (auto simp: strip_def isspace_def)
  note t = update_keeps_unsupplied_fields [OF store_inv_demo f, of env0 None
      "Some ''Shorter proof''" None None None k]
  from t k f tg now store_inv_demo show ?thesis by auto
qed

subsection \<open>One link per triple\<close>

lemma validate_link_semantics_same_elements:
  "elements (db c1) = elements (db c) \<Longrightarrow>
   validate_link_semantics c1 s t r = validate_link_semantics c s t r"
proof -
  assume "elements (db c1) = elements (db c)"
  then have "fetch_type c1 = fetch_type c"
    by (simp add: fetch_type_def fetch_element_def fun_eq_iff)
  then show ?thesis
    by (simp only: validate_link_semantics_def)
qed

lemma create_link_returns:
  assumes "create_link ev c s t r nt id_opt = (Inr lid, c1)"
  shows "validate_link_semantics c s t r = Inr () \<and> lid = id_or_fresh ev id_opt \<and>
         \<not> has_triple (element_links (db c)) s t r \<and>
         lid \<notin> set (map lk_id (element_links (db c))) \<and>
         c1 = commit (c\<lparr>db := (db c)\<lparr>element_links := element_links (db c) @
           [\<lparr>lk_id = lid, lk_src_id = s, lk_dst_id = t, lk_rel = r, lk_note = py_or nt [],
             lk_created_at = now_utc_iso ev 0, lk_updated_at = now_utc_iso ev 0\<rparr>]\<rparr>\<rparr>)"
proof (cases "validate_link_semantics c s t r")
  case (Inl e)
  with assms create_link_invalid[OF Inl, of ev nt id_opt] show ?thesis by simp
next
  case (Inr u)
  then have v: "validate_link_semantics c s t r = Inr ()" by simp
  let ?row = "\<lparr>lk_id = id_or_fresh ev id_opt, lk_src_id = s, lk_dst_id = t,
                 lk_rel = r, lk_note = py_or nt [], lk_created_at = now_utc_iso ev 0,
                 lk_updated_at = now_utc_iso ev 0\<rparr>"
  note a = assms[unfolded create_link_valid[OF v]]
  show ?thesis
  proof (cases "sql_insert_link ?row (db c)")
    case (Inl e)
    with a show ?thesis by (simp add: execute_def)
  next
    case ins: (Inr d)
    with a have res: "lid = id_or_fresh ev id_opt" "c1 = commit (c\<lparr>db := d\<rparr>)"
      by (simp_all add: execute_def)
    have chk: "\<not> has_triple (element_links (db c)) s t r"
      "id_or_fresh ev id_opt \<notin> set (map lk_id (element_links (db c)))"
      "d = (db c)\<lparr>element_links := element_links (db c) @ [?row]\<rparr>"
      using ins by (simp_all add: sql_insert_link_def split: if_splits)
    show ?thesis
      unfolding res chk(3) using v chk(1,2) by simp
  qed
qed

lemma create_link_duplicate:
  assumes "validate_link_semantics c s t r = Inr ()" "has_triple (element_links (db c)) s t r"
  shows "create_link ev c s t r nt id_opt = (Inl DuplicateLink, c)"
proof -
  have "r \<in> set LINK_RELATIONS"
    using assms(1) by (auto simp: validate_link_semantics_def validate_rel_def split: if_splits)
  with assms(2) show ?thesis
    by (simp add: create_link_valid[OF assms(1)] execute_def sql_insert_link_def)
qed

lemma create_link_stored_fails:
  assumes "has_triple (element_links (db c)) s t r"
  shows "\<exists>e. create_link ev c s t r nt id_opt = (Inl e, c)"
proof (cases "validate_link_semantics c s t r")
  case (Inl e)
  then show ?thesis using create_link_invalid by blast
next
  case (Inr u)
  then have "validate_link_semantics c s t r = Inr ()" by simp
  then show ?thesis using create_link_duplicate[OF _ assms] by blast
qed

lemma reachable_triples_distinct:
  "reachable c \<Longrightarrow> distinct (map link_triple (element_links (db c))) \<and>
                   distinct (map link_triple (element_links (committed c)))"
  using reachable_conn_inv[of c] by (simp add: conn_inv_def store_inv_def links_ok_def)

lemma create_link_twice:
  assumes a: "create_link ev c s t r nt id_opt = (Inr lid, c1)"
  shows "create_link ev' c1 s t r nt' id_opt' = (Inl DuplicateLink, c1)"
    and "get_link c1 lid
        = Some \<lparr>lk_id = lid, lk_src_id = s, lk_dst_id = t, lk_rel = r,
                lk_note = py_or nt [], lk_created_at = now_utc_iso ev 0,
                lk_updated_at = now_utc_iso ev 0\<rparr>"
proof -
  let ?row = "\<lparr>lk_id = lid, lk_src_id = s, lk_dst_id = t, lk_rel = r,
                lk_note = py_or nt [], lk_created_at = now_utc_iso ev 0,
                lk_updated_at = now_utc_iso ev 0\<rparr>"
  note r = create_link_returns[OF a]
  have v0: "validate_link_semantics c s t r = Inr ()"
    using r by (elim conjE)
  have new: "lid \<notin> set (map lk_id (element_links (db c)))"
    using r by (elim conjE)
  have c1: "c1 = commit (c\<lparr>db := (db c)\<lparr>element_links := element_links (db c) @ [?row]\<rparr>\<rparr>)"
    using r by (elim conjE)
  have "elements (db c1) = elements (db c)"
    by (simp add: c1 commit_def)
  from validate_link_semantics_same_elements[OF this, of s t r] v0
  have v: "validate_link_semantics c1 s t r = Inr ()"
    by simp
  have "has_triple (element_links (db c1)) s t r"
    by (simp add: c1 commit_def has_triple_def link_triple_def)
  with v show "create_link ev' c1 s t r nt' id_opt' = (Inl DuplicateLink, c1)"
    by (rule create_link_duplicate)
  have "find (\<lambda>l. lk_id l = lid) (element_links (db c) @ [?row]) = Some ?row"
    using new by (intro find_append_new) auto
  then show "get_link c1 lid = Some ?row"
    by (simp add: get_link_def fetch_link_def c1 commit_def)
qed

text \<open>
  C6. When \<^verbatim>\<open>create_link\<close> has returned an id, a second call with the same
  \<open>src_id\<close>, \<open>dst_id\<close> and \<open>rel\<close> (whatever its note, its id and the clock) raises the
  error of the unique index on the triple and leaves the connection exactly as it was,
  so the first link still reads as it was created. Whenever a link with the triple is
  stored, \<^verbatim>\<open>create_link\<close> for that triple raises and changes nothing. And on every
  connection a program can reach, no two stored links have the same triple, in the open
  transaction as in the committed database.
\<close>

theorem one_link_per_triple:
  "(create_link ev c src_id dst_id rel nt id_opt = (Inr link_id, c1) \<longrightarrow>
      create_link ev' c1 src_id dst_id rel nt' id_opt' = (Inl DuplicateLink, c1) \<and>
      get_link c1 link_id
        = Some \<lparr>lk_id = link_id, lk_src_id = src_id, lk_dst_id = dst_id, lk_rel = rel,
                lk_note = py_or nt [], lk_created_at = now_utc_iso ev 0,
                lk_updated_at = now_utc_iso ev 0\<rparr>) \<and>
   (has_triple (element_links (db c)) src_id dst_id rel \<longrightarrow>
      (\<exists>e. create_link ev c src_id dst_id rel nt id_opt = (Inl e, c))) \<and>
   (reachable c \<longrightarrow>
      distinct (map link_triple (element_links (db c))) \<and>
      distinct (map link_triple (element_links (committed c))))"
proof -
  have 1: "create_link ev' c1 src_id dst_id rel nt' id_opt' = (Inl DuplicateLink, c1) \<and>
      get_link c1 link_id
        = Some \<lparr>lk_id = link_id, lk_src_id = src_id, lk_dst_id = dst_id, lk_rel = rel,
                lk_note = py_or nt [], lk_created_at = now_utc_iso ev 0,
                lk_updated_at = now_utc_iso ev 0\<rparr>"
    if "create_link ev c src_id dst_id rel nt id_opt = (Inr link_id, c1)"
    using create_link_twice[OF that] by (intro conjI)
  have 2: "\<exists>e. create_link ev c src_id dst_id rel nt id_opt = (Inl e, c)"
    if "has_triple (element_links (db c)) src_id dst_id rel"
    using that by (rule create_link_stored_fails)
  have 3: "distinct (map link_triple (element_links (db c))) \<and>
      distinct (map link_triple (element_links (committed c)))"
    if "reachable c"
    using that by (rule reachable_triples_distinct)
  show ?thesis
  proof (rule conjI[OF _ conjI])
    show "create_link ev c src_id dst_id rel nt id_opt = (Inr link_id, c1) \<longrightarrow>
      create_link ev' c1 src_id dst_id rel nt' id_opt' = (Inl DuplicateLink, c1) \<and>
      get_link c1 link_id
        = Some \<lparr>lk_id = link_id, lk_src_id = src_id, lk_dst_id = dst_id, lk_rel = rel,
                lk_note = py_or nt [], lk_created_at = now_utc_iso ev 0,
                lk_updated_at = now_utc_iso ev 0\<rparr>"
      by (rule impI) (rule 1)
    show "has_triple (element_links (db c)) src_id dst_id rel \<longrightarrow>
      (\<exists>e. create_link ev c src_id dst_id rel nt id_opt = (Inl e, c))"
      by (rule impI) (rule 2)
    show "reachable c \<longrightarrow>
      distinct (map link_triple (element_links (db c))) \<and>
      distinct (map link_triple (element_links (committed c)))"
      by (rule impI) (rule 3)
  qed
qed

theorem one_link_per_triple_witness:
  "(\<exists>c1. create_link env0 demo_conn ''p1'' ''t2'' ''proves'' ''first'' None = (Inr ''u-77'', c1) \<and>
      create_link env0 c1 ''p1'' ''t2'' ''proves'' ''second'' (Some ''l7'') = (Inl DuplicateLink, c1) \<and>
      get_link c1 ''u-77''
        = Some \<lparr>lk_id = ''u-77'', lk_src_id = ''p1'', lk_dst_id = ''t2'', lk_rel = ''proves'',
                lk_note = ''first'', lk_created_at = ''2024-05-02T09:30:00+00:00'',
                lk_updated_at = ''2024-05-02T09:30:00+00:00''\<rparr>) \<and>
   has_triple (element_links (db demo_conn)) ''p1'' ''t1'' ''proves'' \<and>
   (\<exists>e. create_link env0 demo_conn ''p1'' ''t1'' ''proves'' [] None = (Inl e, demo_conn)) \<and>
   reachable \<lparr>db = empty_db, committed = empty_db\<rparr> \<and>
   distinct (map link_triple (element_links (db \<lparr>db = empty_db, committed = empty_db\<rparr>)))"
proof -
  have ne: "''p1'' \<noteq> ''t2''" by simp
  have rel: "''proves'' \<in> set LINK_RELATIONS" by (simp add: in_LINK_RELATIONS)
  have "spec_allows ''proves'' ''proof'' ''theorem''"
    by (simp add: spec_allows_def spec_relation_table_def)
  then have v: "validate_link_semantics demo_conn ''p1'' ''t2'' ''proves'' = Inr ()"
    using validate_link_semantics_iff[OF ne demo_types(1) demo_types(3) rel] by simp
  have fresh: "\<not> has_triple (element_links (db demo_conn)) ''p1'' ''t2'' ''proves''"
    "id_or_fresh env0 None \<notin> set (map lk_id (element_links (db demo_conn)))"
    by (simp_all add: has_triple_def link_triple_def id_or_fresh_def env0_def demo_conn_def
        demo_db_def)
  have ev: "id_or_fresh env0 None = ''u-77''" "py_or ''first'' [] = ''first''"
    "now_utc_iso env0 0 = ''2024-05-02T09:30:00+00:00''"
    by (simp_all add: id_or_fresh_def env0_def py_or_def)
  obtain c1 where
    c1: "create_link env0 demo_conn ''p1'' ''t2'' ''proves'' ''first'' None = (Inr ''u-77'', c1)"
    using create_link_fresh[OF v fresh, of "''first''"] by (simp add: ev)
  have st: "has_triple (element_links (db demo_conn)) ''p1'' ''t1'' ''proves''"
    by (simp add: has_triple_def link_triple_def demo_conn_def demo_db_def)
  have re: "reachable \<lparr>db = empty_db, committed = empty_db\<rparr>"
    by (rule reachable.opened)
  have a: "create_link env0 c1 ''p1'' ''t2'' ''proves'' ''second'' (Some ''l7'') = (Inl DuplicateLink, c1) \<and>
      get_link c1 ''u-77''
        = Some \<lparr>lk_id = ''u-77'', lk_src_id = ''p1'', lk_dst_id = ''t2'', lk_rel = ''proves'',
                lk_note = ''first'', lk_created_at = ''2024-05-02T09:30:00+00:00'',
                lk_updated_at = ''2024-05-02T09:30:00+00:00''\<rparr>"
    using one_link_per_triple [of env0 demo_conn "''p1''" "''t2''" "''proves''" "''first''" None
      "''u-77''" c1 env0 "''second''" "Some ''l7''", THEN conjunct1, THEN mp, OF c1]
    by (simp add: ev)
  have b: "\<exists>e. create_link env0 demo_conn ''p1'' ''t1'' ''proves'' [] None = (Inl e, demo_conn)"
    by (rule one_link_per_triple [of env0 demo_conn "''p1''" "''t1''" "''proves''" "[]" None,
      THEN conjunct2, THEN conjunct1, THEN mp, OF st])
  have d: "distinct (map link_triple (element_links (db \<lparr>db = empty_db, committed = empty_db\<rparr>)))"
    by (rule one_link_per_triple [of _ "\<lparr>db = empty_db, committed = empty_db\<rparr>",
      THEN conjunct2, THEN conjunct2, THEN mp, OF re, THEN conjunct1])
  from c1 a have "\<exists>c1. create_link env0 demo_conn ''p1'' ''t2'' ''proves'' ''first'' None = (Inr ''u-77'', c1) \<and>
      create_link env0 c1 ''p1'' ''t2'' ''proves'' ''second'' (Some ''l7'') = (Inl DuplicateLink, c1) \<and>
      get_link c1 ''u-77''
        = Some \<lparr>lk_id = ''u-77'', lk_src_id = ''p1'', lk_dst_id = ''t2'', lk_rel = ''proves'',
                lk_note = ''first'', lk_created_at = ''2024-05-02T09:30:00+00:00'',
                lk_updated_at = ''2024-05-02T09:30:00+00:00''\<rparr>"
    by (intro exI[of _ c1] conjI) (elim conjE, assumption)+
  with st b re d show ?thesis by (intro conjI)
qed

subsection \<open>Updating a link\<close>

lemma py_or_empty: "py_or x [] = x"
  by (simp add: py_or_def)

lemma fetch_link_Some:
  "fetch_link c lid = Some l \<Longrightarrow> l \<in> set (element_links (db c)) \<and> lk_id l = lid"
  by (auto simp: fetch_link_def find_Some_iff)

lemma validate_rel_of_semantics:
  "validate_rel r = Inl e \<Longrightarrow> validate_link_semantics c s t r = Inl e"
  by (simp add: validate_link_semantics_def)

lemma validate_semantics_rel:
  "validate_link_semantics c s t r = Inr u \<Longrightarrow> validate_rel r = Inr r"
  by (auto simp: validate_link_semantics_def validate_rel_def split: if_splits)

lemma update_link_unfold:
  assumes "fetch_link c lid = Some existing"
  shows "update_link ev c lid orel onote =
     (case (case orel of Some r \<Rightarrow> validate_link_semantics c (lk_src_id existing) (lk_dst_id existing) r
                       | None \<Rightarrow> Inr ()) of
        Inl e \<Rightarrow> (Inl e, c)
      | Inr u \<Rightarrow>
          (case execute (sql_update_link (case orel of Some r \<Rightarrow> r | None \<Rightarrow> lk_rel existing)
                           (case onote of Some n \<Rightarrow> n | None \<Rightarrow> lk_note existing)
                           (now_utc_iso ev 0) lid) c of
             (Inl e, c1) \<Rightarrow> (Inl e, c1)
           | (Inr v, c1) \<Rightarrow> (Inr True, commit c1)))"
proof (cases orel)
  case None
  show ?thesis
    unfolding update_link_def Let_def py_or_empty None option.case
    by (simp add: assms)
next
  case (Some r)
  show ?thesis
  proof (cases "validate_rel r")
    case (Inl e)
    then show ?thesis
      unfolding update_link_def Let_def py_or_empty Some option.case
      by (simp add: assms validate_rel_of_semantics)
  next
    case (Inr r')
    then have "r' = r" by (auto simp: validate_rel_def split: if_splits)
    with Inr show ?thesis
      unfolding update_link_def Let_def py_or_empty Some option.case
      by (simp add: assms)
  qed
qed

lemma no_other_link_with_triple:
  assumes "links_ok d" "l \<in> set (element_links d)"
  shows "\<not> has_triple (filter (\<lambda>x. lk_id x \<noteq> lk_id l) (element_links d))
            (lk_src_id l) (lk_dst_id l) (lk_rel l)"
proof
  assume "has_triple (filter (\<lambda>x. lk_id x \<noteq> lk_id l) (element_links d))
            (lk_src_id l) (lk_dst_id l) (lk_rel l)"
  then obtain x where x: "x \<in> set (element_links d)" "lk_id x \<noteq> lk_id l"
      "link_triple x = link_triple l"
    by (auto simp: has_triple_def link_triple_def)
  have "inj_on link_triple (set (element_links d))"
    using assms(1) by (simp add: links_ok_def distinct_map)
  with x(1,3) assms(2) have "x = l" by (auto dest: inj_onD)
  with x(2) show False by simp
qed

lemma update_link_done:
  assumes f: "fetch_link c lid = Some existing"
    and v: "(case orel of Some r \<Rightarrow> validate_link_semantics c (lk_src_id existing) (lk_dst_id existing) r
                       | None \<Rightarrow> Inr ()) = Inr ()"
    and rel: "(case orel of Some r \<Rightarrow> r | None \<Rightarrow> lk_rel existing) \<in> set LINK_RELATIONS"
    and new: "\<not> has_triple (filter (\<lambda>x. lk_id x \<noteq> lid) (element_links (db c)))
                (lk_src_id existing) (lk_dst_id existing)
                (case orel of Some r \<Rightarrow> r | None \<Rightarrow> lk_rel existing)"
  shows "\<exists>c'. update_link ev c lid orel onote = (Inr True, c') \<and>
              get_link c' lid = Some (updated_link ev orel onote existing) \<and>
              elements (db c') = elements (db c)"
proof -
  let ?f = "\<lambda>l. if lk_id l = lid
             then l\<lparr>lk_rel := (case orel of Some r \<Rightarrow> r | None \<Rightarrow> lk_rel existing),
                    lk_note := (case onote of Some n \<Rightarrow> n | None \<Rightarrow> lk_note existing),
                    lk_updated_at := now_utc_iso ev 0\<rparr>
             else l"
  let ?c1 = "c\<lparr>db := (db c)\<lparr>element_links := map ?f (element_links (db c))\<rparr>\<rparr>"
  have fnd: "find (\<lambda>l. lk_id l = lid) (element_links (db c)) = Some existing"
    using f by (simp add: fetch_link_def)
  have ex: "execute (sql_update_link (case orel of Some r \<Rightarrow> r | None \<Rightarrow> lk_rel existing)
                           (case onote of Some n \<Rightarrow> n | None \<Rightarrow> lk_note existing)
                           (now_utc_iso ev 0) lid) c = (Inr (), ?c1)"
    using rel new by (simp add: execute_def sql_update_link_def fnd)
  have u: "update_link ev c lid orel onote = (Inr True, commit ?c1)"
    unfolding update_link_unfold[OF f] v by (simp add: ex)
  have id: "lk_id existing = lid"
    using fetch_link_Some[OF f] by simp
  have "find (\<lambda>l. lk_id l = lid) (map ?f (element_links (db c)))
          = map_option ?f (find (\<lambda>l. lk_id l = lid) (element_links (db c)))"
    by (rule find_map_same) simp
  then have "get_link (commit ?c1) lid = Some (updated_link ev orel onote existing)"
    by (simp add: get_link_def fetch_link_def commit_def fnd id updated_link_def)
  moreover have "elements (db (commit ?c1)) = elements (db c)"
    by (simp add: commit_def)
  ultimately show ?thesis using u by blast
qed

lemma drifted_conn_eval:
  "elements (db drifted_conn) =
        [\<lparr>el_id = ''p1'', el_type = ''proof'', el_format = ''plain'',
          el_title = ''Proof of T'', el_body = ''By induction.'',
          el_created_at = ''2024-05-01T08:00:00+00:00'',
          el_updated_at = ''2024-05-01T08:00:00+00:00''\<rparr>,
         \<lparr>el_id = ''t1'', el_type = ''remark'', el_format = ''latex'',
          el_title = ''T'', el_body = ''x = x'',
          el_created_at = ''2024-05-01T08:01:00+00:00'',
          el_updated_at = ''2024-05-02T09:30:00+00:00''\<rparr>,
         \<lparr>el_id = ''t2'', el_type = ''theorem'', el_format = ''plain'',
          el_title = ''T2'', el_body = ''y = y'',
          el_created_at = ''2024-05-01T08:02:30+00:00'',
          el_updated_at = ''2024-05-01T08:02:30+00:00''\<rparr>,
         \<lparr>el_id = ''r1'', el_type = ''remark'', el_format = ''markdown'',
          el_title = ''Note'', el_body = ''See T.'',
          el_created_at = ''2024-05-01T08:03:00+00:00'',
          el_updated_at = ''2024-05-01T08:03:00+00:00''\<rparr>]"
  "element_links (db drifted_conn) = element_links demo_db"
  "fst (update_element env0 demo_conn ''t1'' (Some ''remark'') None None None None) = Inr True"
proof -
  have f: "fetch_element demo_conn ''t1''
     = Some \<lparr>el_id = ''t1'', el_type = ''theorem'', el_format = ''latex'',
          el_title = ''T'', el_body = ''x = x'',
          el_created_at = ''2024-05-01T08:01:00+00:00'',
          el_updated_at = ''2024-05-01T08:02:00+00:00''\<rparr>"
    by (simp add: fetch_element_def demo_conn_def demo_db_def)
  have u: "update_element env0 demo_conn ''t1'' (Some ''remark'') None None None None =
     (Inr True, commit (demo_conn\<lparr>db := demo_db\<lparr>elements :=
        map (\<lambda>r. if el_id r = ''t1''
                  then r\<lparr>el_type := ''remark'', el_format := ''latex'', el_title := ''T'',
                         el_body := ''x = x'', el_updated_at := now_utc_iso env0 0\<rparr>
                  else r) (elements demo_db)\<rparr>\<rparr>))"
    unfolding update_element_unfold[OF f]
    by (simp add: validate_type_def in_ELEMENT_TYPES in_FORMATS strip_def isspace_def execute_def
        sql_update_element_def has_element_def demo_conn_def demo_db_def)
  show "elements (db drifted_conn) =
        [\<lparr>el_id = ''p1'', el_type = ''proof'', el_format = ''plain'',
          el_title = ''Proof of T'', el_body = ''By induction.'',
          el_created_at = ''2024-05-01T08:00:00+00:00'',
          el_updated_at = ''2024-05-01T08:00:00+00:00''\<rparr>,
         \<lparr>el_id = ''t1'', el_type = ''remark'', el_format = ''latex'',
          el_title = ''T'', el_body = ''x = x'',
          el_created_at = ''2024-05-01T08:01:00+00:00'',
          el_updated_at = ''2024-05-02T09:30:00+00:00''\<rparr>,
         \<lparr>el_id = ''t2'', el_type = ''theorem'', el_format = ''plain'',
          el_title = ''T2'', el_body = ''y = y'',
          el_created_at = ''2024-05-01T08:02:30+00:00'',
          el_updated_at = ''2024-05-01T08:02:30+00:00''\<rparr>,
         \<lparr>el_id = ''r1'', el_type = ''remark'', el_format = ''markdown'',
          el_title = ''Note'', el_body = ''See T.'',
          el_created_at = ''2024-05-01T08:03:00+00:00'',
          el_updated_at = ''2024-05-01T08:03:00+00:00''\<rparr>]"
    unfolding drifted_conn_def u by (simp add: commit_def demo_db_def env0_def)
  show "element_links (db drifted_conn) = element_links demo_db"
    by (simp add: drifted_conn_def u commit_def)
  show "fst (update_element env0 demo_conn ''t1'' (Some ''remark'') None None None None) = Inr True"
    by (simp add: u)
qed

lemma drifted_link:
  "fetch_link drifted_conn ''l1''
     = Some \<lparr>lk_id = ''l1'', lk_src_id = ''p1'', lk_dst_id = ''t1'', lk_rel = ''proves'',
          lk_note = ''main'', lk_created_at = ''2024-05-01T08:04:00+00:00'',
          lk_updated_at = ''2024-05-01T08:04:00+00:00''\<rparr>"
  by (simp add: fetch_link_def drifted_conn_eval demo_db_def)

lemma drifted_types:
  "fetch_type drifted_conn ''p1'' = Some ''proof''"
  "fetch_type drifted_conn ''t1'' = Some ''remark''"
  by (simp_all add: fetch_type_def fetch_element_def drifted_conn_eval)

lemma drifted_validation:
  "validate_link_semantics drifted_conn ''p1'' ''t1'' ''proves''
     = Inl (IncompatibleRelation ''proves'' ''dst'' ''remark'')"
  "validate_link_semantics drifted_conn ''p1'' ''t1'' ''related'' = Inr ()"
proof -
  have ne: "''p1'' \<noteq> ''t1''" by simp
  show "validate_link_semantics drifted_conn ''p1'' ''t1'' ''proves''
     = Inl (IncompatibleRelation ''proves'' ''dst'' ''remark'')"
    unfolding validate_link_semantics_table[OF ne drifted_types, of "''proves''", simplified in_LINK_RELATIONS, simplified]
    by (simp add: spec_relation_table_def)
  show "validate_link_semantics drifted_conn ''p1'' ''t1'' ''related'' = Inr ()"
    unfolding validate_link_semantics_table[OF ne drifted_types, of "''related''", simplified in_LINK_RELATIONS, simplified]
    by (simp add: spec_relation_table_def)
qed

lemma store_inv_drifted: "store_inv (db drifted_conn)"
proof -
  have "conn_inv demo_conn"
    using store_inv_demo by (simp add: conn_inv_def demo_conn_def)
  then have "conn_inv drifted_conn"
    unfolding drifted_conn_def by (rule update_element_inv[OF prod.collapse[symmetric]])
  then show ?thesis by (simp add: conn_inv_def)
qed

text \<open>
  C8, as amended. In a store that satisfies its schema, for every stored link:
  \<^verbatim>\<open>update_link\<close> without a \<^verbatim>\<open>rel\<close> returns \<^verbatim>\<open>True\<close> and writes the note,
  whatever \<^verbatim>\<open>validate_link_semantics\<close> would say of the link as it stands; with a
  \<^verbatim>\<open>rel\<close>, whether or not it differs from the stored one, the call raises exactly
  the error of \<^verbatim>\<open>validate_link_semantics\<close> for the stored endpoints and the supplied
  relation, leaving the connection as it was, and when that validation passes it
  writes the relation and the note (or raises the error of the unique index when
  another link has the new triple).
\<close>

theorem update_link_validates_iff_rel_supplied:
  assumes "store_inv (db c)" and "fetch_link c link_id = Some existing"
  shows
    "(\<exists>c'. update_link ev c link_id None onote = (Inr True, c') \<and>
           get_link c' link_id = Some (updated_link ev None onote existing)) \<and>
     (validate_link_semantics c (lk_src_id existing) (lk_dst_id existing) r = Inl e \<longrightarrow>
        update_link ev c link_id (Some r) onote = (Inl e, c)) \<and>
     (validate_link_semantics c (lk_src_id existing) (lk_dst_id existing) r = Inr () \<longrightarrow>
        (if has_triple (filter (\<lambda>x. lk_id x \<noteq> link_id) (element_links (db c)))
              (lk_src_id existing) (lk_dst_id existing) r
         then update_link ev c link_id (Some r) onote = (Inl DuplicateLink, c)
         else (\<exists>c'. update_link ev c link_id (Some r) onote = (Inr True, c') \<and>
                get_link c' link_id = Some (updated_link ev (Some r) onote existing))))"
proof -
  have ex: "existing \<in> set (element_links (db c))" "lk_id existing = link_id"
    using fetch_link_Some[OF assms(2)] by simp_all
  have lk: "links_ok (db c)"
    using assms(1) by (simp add: store_inv_def)
  have fnd: "find (\<lambda>l. lk_id l = link_id) (element_links (db c)) = Some existing"
    using assms(2) by (simp add: fetch_link_def)
  have 1: "\<exists>c'. update_link ev c link_id None onote = (Inr True, c') \<and>
           get_link c' link_id = Some (updated_link ev None onote existing)"
  proof -
    have rel: "lk_rel existing \<in> set LINK_RELATIONS"
      using lk ex(1) by (simp add: links_ok_def)
    have new: "\<not> has_triple (filter (\<lambda>x. lk_id x \<noteq> link_id) (element_links (db c)))
                (lk_src_id existing) (lk_dst_id existing) (lk_rel existing)"
      using no_other_link_with_triple[OF lk ex(1)] by (simp add: ex(2))
    from update_link_done[OF assms(2), of None ev onote] rel new show ?thesis
      by auto
  qed
  have 2: "update_link ev c link_id (Some r) onote = (Inl e, c)"
    if "validate_link_semantics c (lk_src_id existing) (lk_dst_id existing) r = Inl e"
    unfolding update_link_unfold[OF assms(2)] by (simp add: that)
  have 3: "if has_triple (filter (\<lambda>x. lk_id x \<noteq> link_id) (element_links (db c)))
              (lk_src_id existing) (lk_dst_id existing) r
         then update_link ev c link_id (Some r) onote = (Inl DuplicateLink, c)
         else (\<exists>c'. update_link ev c link_id (Some r) onote = (Inr True, c') \<and>
                get_link c' link_id = Some (updated_link ev (Some r) onote existing))"
    if v: "validate_link_semantics c (lk_src_id existing) (lk_dst_id existing) r = Inr ()"
  proof (cases "has_triple (filter (\<lambda>x. lk_id x \<noteq> link_id) (element_links (db c)))
              (lk_src_id existing) (lk_dst_id existing) r")
    case True
    have rel: "r \<in> set LINK_RELATIONS"
      using validate_semantics_rel[OF v] by (auto simp: validate_rel_def split: if_splits)
    have "update_link ev c link_id (Some r) onote = (Inl DuplicateLink, c)"
      unfolding update_link_unfold[OF assms(2)]
      using True rel by (simp add: v execute_def sql_update_link_def fnd)
    with True show ?thesis by simp
  next
    case False
    have rel: "r \<in> set LINK_RELATIONS"
      using validate_semantics_rel[OF v] by (auto simp: validate_rel_def split: if_splits)
    from update_link_done[OF assms(2), of "Some r" ev onote] v rel False show ?thesis
      by auto
  qed
  show ?thesis
  proof (rule conjI[OF _ conjI])
    show "\<exists>c'. update_link ev c link_id None onote = (Inr True, c') \<and>
           get_link c' link_id = Some (updated_link ev None onote existing)"
      by (rule 1)
    show "validate_link_semantics c (lk_src_id existing) (lk_dst_id existing) r = Inl e \<longrightarrow>
        update_link ev c link_id (Some r) onote = (Inl e, c)"
      by (rule impI) (rule 2)
    show "validate_link_semantics c (lk_src_id existing) (lk_dst_id existing) r = Inr () \<longrightarrow>
        (if has_triple (filter (\<lambda>x. lk_id x \<noteq> link_id) (element_links (db c)))
              (lk_src_id existing) (lk_dst_id existing) r
         then update_link ev c link_id (Some r) onote = (Inl DuplicateLink, c)
         else (\<exists>c'. update_link ev c link_id (Some r) onote = (Inr True, c') \<and>
                get_link c' link_id = Some (updated_link ev (Some r) onote existing)))"
      by (rule impI) (rule 3)
  qed
qed

theorem update_link_validates_witness:
  "store_inv (db drifted_conn) \<and>
   fetch_link drifted_conn ''l1''
     = Some \<lparr>lk_id = ''l1'', lk_src_id = ''p1'', lk_dst_id = ''t1'', lk_rel = ''proves'',
          lk_note = ''main'', lk_created_at = ''2024-05-01T08:04:00+00:00'',
          lk_updated_at = ''2024-05-01T08:04:00+00:00''\<rparr> \<and>
   (\<exists>c'. update_link env0 drifted_conn ''l1'' None (Some ''checked'') = (Inr True, c') \<and>
      get_link c' ''l1''
        = Some \<lparr>lk_id = ''l1'', lk_src_id = ''p1'', lk_dst_id = ''t1'', lk_rel = ''proves'',
             lk_note = ''checked'', lk_created_at = ''2024-05-01T08:04:00+00:00'',
             lk_updated_at = ''2024-05-02T09:30:00+00:00''\<rparr>) \<and>
   validate_link_semantics drifted_conn ''p1'' ''t1'' ''uses''
     = Inl (IncompatibleRelation ''uses'' ''dst'' ''remark'') \<and>
   update_link env0 drifted_conn ''l1'' (Some ''uses'') (Some ''checked'')
     = (Inl (IncompatibleRelation ''uses'' ''dst'' ''remark''), drifted_conn) \<and>
   validate_link_semantics drifted_conn ''p1'' ''t1'' ''related'' = Inr () \<and>
   (\<exists>c'. update_link env0 drifted_conn ''l1'' (Some ''related'') (Some ''checked'') = (Inr True, c') \<and>
      get_link c' ''l1''
        = Some \<lparr>lk_id = ''l1'', lk_src_id = ''p1'', lk_dst_id = ''t1'', lk_rel = ''related'',
             lk_note = ''checked'', lk_created_at = ''2024-05-01T08:04:00+00:00'',
             lk_updated_at = ''2024-05-02T09:30:00+00:00''\<rparr>)"
proof -
  have ne: "''p1'' \<noteq> ''t1''" by simp
  have uses: "validate_link_semantics drifted_conn ''p1'' ''t1'' ''uses''
     = Inl (IncompatibleRelation ''uses'' ''dst'' ''remark'')"
    unfolding validate_link_semantics_table[OF ne drifted_types, of "''uses''", simplified in_LINK_RELATIONS, simplified]
    by (simp add: spec_relation_table_def)
  have free: "\<not> has_triple (filter (\<lambda>x. lk_id x \<noteq> ''l1'') (element_links (db drifted_conn)))
                ''p1'' ''t1'' ''related''"
    by (simp add: drifted_conn_eval demo_db_def has_triple_def)
  have now: "now_utc_iso env0 0 = ''2024-05-02T09:30:00+00:00''"
    by (simp add: env0_def)
  note t1 = update_link_validates_iff_rel_supplied [OF store_inv_drifted drifted_link,
      of env0 "Some ''checked''" "''uses''" "IncompatibleRelation ''uses'' ''dst'' ''remark''"]
  note t2 = update_link_validates_iff_rel_supplied [OF store_inv_drifted drifted_link,
      of env0 "Some ''checked''" "''related''"]
  have a: "\<exists>c'. update_link env0 drifted_conn ''l1'' None (Some ''checked'') = (Inr True, c') \<and>
      get_link c' ''l1''
        = Some \<lparr>lk_id = ''l1'', lk_src_id = ''p1'', lk_dst_id = ''t1'', lk_rel = ''proves'',
             lk_note = ''checked'', lk_created_at = ''2024-05-01T08:04:00+00:00'',
             lk_updated_at = ''2024-05-02T09:30:00+00:00''\<rparr>"
    using t1[THEN conjunct1] by (simp add: updated_link_def now)
  have b: "update_link env0 drifted_conn ''l1'' (Some ''uses'') (Some ''checked'')
     = (Inl (IncompatibleRelation ''uses'' ''dst'' ''remark''), drifted_conn)"
    using t1[THEN conjunct2, THEN conjunct1] uses by simp
  have d: "\<exists>c'. update_link env0 drifted_conn ''l1'' (Some ''related'') (Some ''checked'') = (Inr True, c') \<and>
      get_link c' ''l1''
        = Some \<lparr>lk_id = ''l1'', lk_src_id = ''p1'', lk_dst_id = ''t1'', lk_rel = ''related'',
             lk_note = ''checked'', lk_created_at = ''2024-05-01T08:04:00+00:00'',
             lk_updated_at = ''2024-05-02T09:30:00+00:00''\<rparr>"
    using t2[THEN conjunct2, THEN conjunct2] drifted_validation(2) free
    by (simp add: updated_link_def now)
  from store_inv_drifted drifted_link a uses b drifted_validation(2) d
  show ?thesis by (intro conjI)
qed

text \<open>
  C8 as stated fails for a \<^verbatim>\<open>rel\<close> that does not change the relation: after the
  theorem \<open>t1\<close> became a remark, \<^verbatim>\<open>update_link\<close> of \<open>l1\<close> with its own relation
  \<^verbatim>\<open>proves\<close> raises the incompatibility error, so the validation ran, while the same
  call without \<^verbatim>\<open>rel\<close> returns \<^verbatim>\<open>True\<close>.
\<close>

theorem update_link_same_rel_counterexample:
  "fst (update_element env0 demo_conn ''t1'' (Some ''remark'') None None None None) = Inr True \<and>
   map_option lk_rel (fetch_link drifted_conn ''l1'') = Some ''proves'' \<and>
   update_link env0 drifted_conn ''l1'' (Some ''proves'') None
     = (Inl (IncompatibleRelation ''proves'' ''dst'' ''remark''), drifted_conn) \<and>
   fst (update_link env0 drifted_conn ''l1'' None None) = Inr True"
proof -
  have a: "update_link env0 drifted_conn ''l1'' (Some ''proves'') None
     = (Inl (IncompatibleRelation ''proves'' ''dst'' ''remark''), drifted_conn)"
    unfolding update_link_unfold[OF drifted_link] by (simp add: drifted_validation)
  have "\<not> has_triple (filter (\<lambda>x. lk_id x \<noteq> ''l1'') (element_links (db drifted_conn)))
                ''p1'' ''t1'' ''proves''"
    by (simp add: drifted_conn_eval demo_db_def has_triple_def)
  then have b: "fst (update_link env0 drifted_conn ''l1'' None None) = Inr True"
    using update_link_done[OF drifted_link, of None env0 None]
    by (auto simp: in_LINK_RELATIONS)
  from drifted_conn_eval(3) drifted_link a b show ?thesis by simp
qed

end
